theory Spec2Isabelle
  imports Main "HOL-Library.Sublist"
begin

section \<open>Byte strings and the Go string primitives used by the editor\<close>

text \<open>
  Go strings and byte slices are modelled as \<open>string\<close> (a list of 8-bit characters).
  Offsets are natural numbers; a search that Go reports with \<open>-1\<close> is \<open>None\<close>.
\<close>

text \<open>\<open>strings.Index(s, sub)\<close>: the offset of the first occurrence of \<open>sub\<close> in \<open>s\<close>.\<close>

fun strIndex :: "string \<Rightarrow> string \<Rightarrow> nat option" where
  "strIndex [] sub = (if sub = [] then Some 0 else None)"
| "strIndex (c # cs) sub =
     (if prefix sub (c # cs) then Some 0 else map_option Suc (strIndex cs sub))"

text \<open>\<open>strings.Contains(s, sub)\<close>.\<close>

definition strContains :: "string \<Rightarrow> string \<Rightarrow> bool" where
  "strContains s sub = (strIndex s sub \<noteq> None)"

text \<open>The slice expression \<open>s[i:j]\<close> for \<open>i \<le> j \<le> len(s)\<close>.\<close>

definition slice :: "string \<Rightarrow> nat \<Rightarrow> nat \<Rightarrow> string" where
  "slice s i j = take (j - i) (drop i s)"

section \<open>PositionalLocator: findNthXMLBlock\<close>

text \<open>
  Errors are values: the two errors of the locator, \<open>fmt.Errorf\<close> with and without a
  wrapped error, and the \<open>*fs.PathError\<close> (operation and path) of a failed file
  operation.
\<close>

datatype error =
    OnlyFound nat string
  | UnclosedTag string
  | Wrapped string error
  | Msg string
  | PathError string string

text \<open>
  The \<open>switch\<close> of the loop body: the smaller of the offsets of \<open><tag>\<close> and
  \<open><tag \<close> in \<open>remaining\<close>, when either occurs.
\<close>

definition openIdx :: "string \<Rightarrow> string \<Rightarrow> nat option" where
  "openIdx remaining tag =
     (case (strIndex remaining (''<'' @ tag @ ''>''), strIndex remaining (''<'' @ tag @ '' '')) of
        (Some ie, Some ia) \<Rightarrow> Some (if ie \<le> ia then ie else ia)
      | (Some ie, None) \<Rightarrow> Some ie
      | (None, Some ia) \<Rightarrow> Some ia
      | (None, None) \<Rightarrow> None)"

lemma strIndex_le: "strIndex s p = Some i \<Longrightarrow> i \<le> length s"
  by (induction s arbitrary: i) (auto split: if_splits)

lemma strIndex_nonempty: "strIndex s p = Some i \<Longrightarrow> p \<noteq> [] \<Longrightarrow> s \<noteq> []"
  by (cases s) auto

lemma openIdx_nonempty: "openIdx r tag = Some i \<Longrightarrow> r \<noteq> []"
  by (auto simp: openIdx_def split: option.splits dest: strIndex_nonempty)

function findLoop :: "string \<Rightarrow> int \<Rightarrow> nat \<Rightarrow> string \<Rightarrow> nat \<Rightarrow> error + (nat \<times> nat)" where
  "findLoop tag n count remaining offset =
     (case openIdx remaining tag of
        None \<Rightarrow> Inl (OnlyFound count tag)
      | Some idx \<Rightarrow>
          (case strIndex (drop idx remaining) (''</'' @ tag @ ''>'') of
             None \<Rightarrow> Inl (UnclosedTag tag)
           | Some closeIdx \<Rightarrow>
               if int (count + 1) = n
               then Inr (offset + idx, offset + idx + closeIdx + length (''</'' @ tag @ ''>''))
               else findLoop tag n (count + 1)
                      (drop (idx + closeIdx + length (''</'' @ tag @ ''>'')) remaining)
                      (offset + (idx + closeIdx + length (''</'' @ tag @ ''>'')))))"
  by pat_completeness auto
termination
  by (relation "measure (\<lambda>(tag, n, count, remaining, offset). length remaining)")
     (auto dest: openIdx_nonempty)

definition findNthXMLBlock :: "string \<Rightarrow> string \<Rightarrow> int \<Rightarrow> error + (nat \<times> nat)" where
  "findNthXMLBlock content tag n = findLoop tag n 0 content 0"

subsection \<open>The blocks the scan visits\<close>

text \<open>
  \<open>findNthXMLBlock\<close> does not nest: a block runs from an opening tag to the first closing
  tag after it, and the search for the next block resumes behind that closing tag.
  \<open>blockSpans\<close> lists the spans of the blocks this scan visits, in order, relative to the
  start of the string it is given; \<open>trailingOpen\<close> tells whether the scan ends at an
  opening tag that is never closed. They are the loop of \<open>findNthXMLBlock\<close> with the
  test on \<open>n\<close> removed, and give the "count actually found" a name.
\<close>

definition shiftSpan :: "nat \<Rightarrow> nat \<times> nat \<Rightarrow> nat \<times> nat" where
  "shiftSpan k sp = (k + fst sp, k + snd sp)"

function blockSpans :: "string \<Rightarrow> string \<Rightarrow> (nat \<times> nat) list" where
  "blockSpans tag remaining =
     (case openIdx remaining tag of
        None \<Rightarrow> []
      | Some idx \<Rightarrow>
          (case strIndex (drop idx remaining) (''</'' @ tag @ ''>'') of
             None \<Rightarrow> []
           | Some closeIdx \<Rightarrow>
               (idx, idx + closeIdx + length (''</'' @ tag @ ''>'')) #
               map (shiftSpan (idx + closeIdx + length (''</'' @ tag @ ''>'')))
                 (blockSpans tag (drop (idx + closeIdx + length (''</'' @ tag @ ''>'')) remaining))))"
  by pat_completeness auto
termination
  by (relation "measure (\<lambda>(tag, remaining). length remaining)")
     (auto dest: openIdx_nonempty)

function trailingOpen :: "string \<Rightarrow> string \<Rightarrow> bool" where
  "trailingOpen tag remaining =
     (case openIdx remaining tag of
        None \<Rightarrow> False
      | Some idx \<Rightarrow>
          (case strIndex (drop idx remaining) (''</'' @ tag @ ''>'') of
             None \<Rightarrow> True
           | Some closeIdx \<Rightarrow>
               trailingOpen tag (drop (idx + closeIdx + length (''</'' @ tag @ ''>'')) remaining)))"
  by pat_completeness auto
termination
  by (relation "measure (\<lambda>(tag, remaining). length remaining)")
     (auto dest: openIdx_nonempty)


definition openAt :: "string \<Rightarrow> string \<Rightarrow> nat \<Rightarrow> bool" where
  "openAt tag r i \<longleftrightarrow>
     prefix (''<'' @ tag @ ''>'') (drop i r) \<or> prefix (''<'' @ tag @ '' '') (drop i r)"

definition goodSpan :: "string \<Rightarrow> string \<Rightarrow> nat \<times> nat \<Rightarrow> bool" where
  "goodSpan tag c sp \<longleftrightarrow>
     fst sp \<le> snd sp \<and> snd sp \<le> length c \<and>
     (prefix (''<'' @ tag @ ''>'') (slice c (fst sp) (snd sp)) \<or>
      prefix (''<'' @ tag @ '' '') (slice c (fst sp) (snd sp))) \<and>
     suffix (''</'' @ tag @ ''>'') (slice c (fst sp) (snd sp))"

text \<open>The block that starts the scan of \<open>r\<close> after the end \<open>p\<close> of the previous one.\<close>

definition blockAfter :: "string \<Rightarrow> string \<Rightarrow> nat \<Rightarrow> nat \<times> nat \<Rightarrow> bool" where
  "blockAfter tag r p sp \<longleftrightarrow>
     p \<le> fst sp \<and> openIdx (drop p r) tag = Some (fst sp - p) \<and>
     strIndex (drop (fst sp) r) (''</'' @ tag @ ''>'') =
       Some (snd sp - fst sp - length (''</'' @ tag @ ''>'')) \<and>
     fst sp + length (''</'' @ tag @ ''>'') \<le> snd sp \<and> snd sp \<le> length r"

declare findLoop.simps [simp del] blockSpans.simps [simp del] trailingOpen.simps [simp del]

definition splice :: "string \<Rightarrow> nat \<Rightarrow> nat \<Rightarrow> string \<Rightarrow> string" where
  "splice content start end' new = take start content @ new @ drop end' content"

definition prevBlockEnd :: "string \<Rightarrow> string \<Rightarrow> int \<Rightarrow> nat" where
  "prevBlockEnd content tag n =
     (if n \<le> 1 then 0
      else case findNthXMLBlock content tag (n - 1) of Inr (s, e) \<Rightarrow> e | Inl err \<Rightarrow> 0)"

section \<open>IDAllocator: next free id of a namespace\<close>

text \<open>
  Go's \<open>int\<close> is 64 bits wide here: values are modelled as \<open>int\<close>, and the one addition
  of the allocator wraps as the machine addition does.
\<close>

definition wrapInt64 :: "int \<Rightarrow> int" where
  "wrapInt64 x = (x + 2 ^ 63) mod 2 ^ 64 - 2 ^ 63"

definition isDigit :: "char \<Rightarrow> bool" where
  "isDigit c \<longleftrightarrow> c \<in> set ''0123456789''"

definition decimalValue :: "string \<Rightarrow> int" where
  "decimalValue ds = foldl (\<lambda>acc c. 10 * acc + (int (of_char c) - 48)) 0 ds"

text \<open>
  \<open>strconv.Atoi\<close> on a non-empty string of decimal digits (all the patterns capture):
  the value, or the range error when it does not fit an \<open>int\<close>.
\<close>

definition atoi :: "string \<Rightarrow> int option" where
  "atoi ds = (if decimalValue ds \<le> 2 ^ 63 - 1 then Some (decimalValue ds) else None)"

text \<open>
  The regular expression \<open>w:id="(\d+)"\<close> anchored at the start of \<open>s\<close>: the captured
  digits and the length of the match.
\<close>

definition matchIdAt :: "string \<Rightarrow> (string \<times> nat) option" where
  \<open>matchIdAt s =
     (if prefix ''w:id="'' s
      then (let ds = takeWhile isDigit (drop 6 s)
            in if ds \<noteq> [] \<and> prefix ''"'' (drop (6 + length ds) s)
               then Some (ds, 6 + length ds + 1) else None)
      else None)\<close>

lemma matchIdAt_pos: "matchIdAt s = Some (ds, len) \<Longrightarrow> 0 < len \<and> s \<noteq> []"
  by (auto simp: matchIdAt_def Let_def split: if_splits)

text \<open>
  \<open>revisionIDPattern.FindAllSubmatch(docXML, -1)\<close>: the captures of the successive
  non-overlapping leftmost matches of \<open>w:id="(\d+)"\<close>.
\<close>

function findAllIds :: "string \<Rightarrow> string list" where
  "findAllIds s =
     (if s = [] then []
      else case matchIdAt s of
             Some (ds, len) \<Rightarrow> ds # findAllIds (drop len s)
           | None \<Rightarrow> findAllIds (tl s))"
  by pat_completeness auto
termination
  by (relation "measure length") (auto dest: matchIdAt_pos)

text \<open>
  The tail \<open>[^>]*w:id="(\d+)"\<close> of the note and comment patterns, matched against the
  text behind \<open><w:kind\<close>. The star is greedy: of the offsets up to \<open>j\<close> at which the
  attribute matches, the match takes the last. The result is the capture and the end of
  the match.
\<close>

fun greedyId :: "string \<Rightarrow> nat \<Rightarrow> (string \<times> nat) option" where
  "greedyId rest 0 = matchIdAt rest"
| "greedyId rest (Suc j) =
     (case matchIdAt (drop (Suc j) rest) of
        Some (ds, len) \<Rightarrow> Some (ds, Suc j + len)
      | None \<Rightarrow> greedyId rest j)"

text \<open>
  \<open>pattern.FindAllSubmatch(raw, -1)\<close> for the pattern \<open><w:kind[^>]*w:id="(\d+)"\<close>,
  where \<open>kind\<close> is a plain word (\<open>footnote\<close>, \<open>endnote\<close>, \<open>comment\<close>).
\<close>

function findAllTagIds :: "string \<Rightarrow> string \<Rightarrow> string list" where
  "findAllTagIds kind s =
     (if s = [] then []
      else if prefix (''<w:'' @ kind) s
      then (let rest = drop (3 + length kind) s
            in case greedyId rest (length (takeWhile (\<lambda>c. c \<noteq> CHR ''>'') rest)) of
                 Some (ds, e) \<Rightarrow> ds # findAllTagIds kind (drop (3 + length kind + e) s)
               | None \<Rightarrow> findAllTagIds kind (tl s))
      else findAllTagIds kind (tl s))"
  by pat_completeness auto
termination
  by (relation "measure (\<lambda>(kind, s). length s)") auto

text \<open>The loop shared by the three allocators: the largest id that parses, from 0.\<close>

definition maxStep :: "int \<Rightarrow> string \<Rightarrow> int" where
  "maxStep maxID m =
     (case atoi m of None \<Rightarrow> maxID | Some v \<Rightarrow> if v > maxID then v else maxID)"

definition getNextRevisionID :: "string \<Rightarrow> int" where
  "getNextRevisionID docXML = wrapInt64 (foldl maxStep 0 (findAllIds docXML) + 1)"

definition getNextNoteID :: "string \<Rightarrow> string \<Rightarrow> int" where
  "getNextNoteID raw noteType = wrapInt64 (foldl maxStep 0 (findAllTagIds noteType raw) + 1)"

definition getNextCommentID :: "string \<Rightarrow> int" where
  "getNextCommentID raw = wrapInt64 (foldl maxStep 0 (findAllTagIds ''comment'' raw) + 1)"

section \<open>CellBlockEditor: merging table cells\<close>

text \<open>\<open>fmt.Sprintf("%d", i)\<close>.\<close>

function natStr :: "nat \<Rightarrow> string" where
  "natStr n = (if n < 10 then [char_of (48 + n)] else natStr (n div 10) @ [char_of (48 + n mod 10)])"
  by pat_completeness auto
termination
  by (relation "measure id") auto

definition itoa :: "int \<Rightarrow> string" where
  "itoa i = (if i < 0 then ''-'' @ natStr (nat (- i)) else natStr (nat i))"

text \<open>
  \<open>injectTcPrElement\<close>: puts \<open>element\<close> into the \<open><w:tcPr>\<close> block of a cell, creating
  the block when the cell has none.
\<close>

definition injectTcPrElement :: "string \<Rightarrow> string \<Rightarrow> string" where
  "injectTcPrElement cellContent element =
     (case strIndex cellContent ''<w:tcPr/>'' of
        Some idx \<Rightarrow>
          take idx cellContent @ ''<w:tcPr>'' @ element @ ''</w:tcPr>'' @
          drop (idx + length ''<w:tcPr/>'') cellContent
      | None \<Rightarrow>
     (case strIndex cellContent ''<w:tcPr>'' of
        Some idx \<Rightarrow>
          take (idx + length ''<w:tcPr>'') cellContent @ element @
          drop (idx + length ''<w:tcPr>'') cellContent
      | None \<Rightarrow>
     (case (case strIndex cellContent ''<w:tcPr '' of
              Some idx \<Rightarrow>
                (case strIndex (drop idx cellContent) ''>'' of
                   Some closeIdx \<Rightarrow> Some (idx + closeIdx + 1)
                 | None \<Rightarrow> None)
            | None \<Rightarrow> None) of
        Some insertPos \<Rightarrow> take insertPos cellContent @ element @ drop insertPos cellContent
      | None \<Rightarrow>
     (case strIndex cellContent ''>'' of
        None \<Rightarrow> cellContent
      | Some openEnd \<Rightarrow>
          take (openEnd + 1) cellContent @ ''<w:tcPr>'' @ element @ ''</w:tcPr>'' @
          drop (openEnd + 1) cellContent))))"

definition mergeTableCellsHorizontal ::
  "string \<Rightarrow> int \<Rightarrow> int \<Rightarrow> int \<Rightarrow> int \<Rightarrow> error + string" where
  \<open>mergeTableCellsHorizontal raw tableIndex row startCol endCol =
     (if endCol \<le> startCol
      then Inl (Msg (''endCol ('' @ itoa endCol @ '') must be greater than startCol ('' @
                      itoa startCol @ '')''))
      else
        let content = raw; span = endCol - startCol + 1 in
        case findNthXMLBlock content ''w:tbl'' tableIndex of
          Inl err \<Rightarrow> Inl (Wrapped (''table '' @ itoa tableIndex @ '' not found'') err)
        | Inr (tblStart, tblEnd) \<Rightarrow>
        let tblContent = slice content tblStart tblEnd in
        case findNthXMLBlock tblContent ''w:tr'' row of
          Inl err \<Rightarrow> Inl (Wrapped (''row '' @ itoa row @ '' not found'') err)
        | Inr (trStart, trEnd) \<Rightarrow>
        let trContent = slice tblContent trStart trEnd in
        case findNthXMLBlock trContent ''w:tc'' startCol of
          Inl err \<Rightarrow> Inl (Wrapped (''cell '' @ itoa startCol @ '' not found'') err)
        | Inr (tcStart1, tcEnd1) \<Rightarrow>
        let firstCell = slice trContent tcStart1 tcEnd1 in
        case findNthXMLBlock trContent ''w:tc'' endCol of
          Inl err \<Rightarrow> Inl (Wrapped (''cell '' @ itoa endCol @ '' not found'') err)
        | Inr (tcStartLast, tcEndLast) \<Rightarrow>
        let modifiedCell =
              injectTcPrElement firstCell (''<w:gridSpan w:val="'' @ itoa span @ ''"/>'');
            newTR = take tcStart1 trContent @ modifiedCell @ drop tcEndLast trContent;
            newTbl = take trStart tblContent @ newTR @ drop trEnd tblContent;
            result = take tblStart content @ newTbl @ drop tblEnd content
        in Inr result)\<close>

text \<open>The body of the loop of \<open>mergeTableCellsVertical\<close> for one row.\<close>

definition vmergeRow :: "string \<Rightarrow> int \<Rightarrow> int \<Rightarrow> int \<Rightarrow> int \<Rightarrow> error + string" where
  \<open>vmergeRow result tableIndex startRow row col =
     (case findNthXMLBlock result ''w:tbl'' tableIndex of
        Inl err \<Rightarrow> Inl (Wrapped (''table '' @ itoa tableIndex @ '' not found'') err)
      | Inr (tblStart, tblEnd) \<Rightarrow>
      let tblContent = slice result tblStart tblEnd in
      case findNthXMLBlock tblContent ''w:tr'' row of
        Inl err \<Rightarrow> Inl (Wrapped (''row '' @ itoa row @ '' not found'') err)
      | Inr (trStart, trEnd) \<Rightarrow>
      let trContent = slice tblContent trStart trEnd in
      case findNthXMLBlock trContent ''w:tc'' col of
        Inl err \<Rightarrow>
          Inl (Wrapped (''cell at row '' @ itoa row @ '' col '' @ itoa col @ '' not found'') err)
      | Inr (tcStart, tcEnd) \<Rightarrow>
      let cellContent = slice trContent tcStart tcEnd;
          mergeElement = (if row = startRow then ''<w:vMerge w:val="restart"/>''
                          else ''<w:vMerge/>'');
          modifiedCell = injectTcPrElement cellContent mergeElement;
          newTR = take tcStart trContent @ modifiedCell @ drop tcEnd trContent;
          newTbl = take trStart tblContent @ newTR @ drop trEnd tblContent
      in Inr (take tblStart result @ newTbl @ drop tblEnd result))\<close>

text \<open>The loop \<open>for row := startRow; row <= endRow; row++\<close>, from \<open>row\<close> on.\<close>

function vmergeLoop :: "int \<Rightarrow> int \<Rightarrow> int \<Rightarrow> int \<Rightarrow> int \<Rightarrow> string \<Rightarrow> error + string" where
  "vmergeLoop tableIndex startRow endRow col row result =
     (if row \<le> endRow
      then (case vmergeRow result tableIndex startRow row col of
              Inl err \<Rightarrow> Inl err
            | Inr result' \<Rightarrow> vmergeLoop tableIndex startRow endRow col (row + 1) result')
      else Inr result)"
  by pat_completeness auto
termination
  by (relation "measure (\<lambda>(tableIndex, startRow, endRow, col, row, result). nat (endRow + 1 - row))")
     auto

definition mergeTableCellsVertical ::
  "string \<Rightarrow> int \<Rightarrow> int \<Rightarrow> int \<Rightarrow> int \<Rightarrow> error + string" where
  "mergeTableCellsVertical raw tableIndex startRow endRow col =
     (if endRow \<le> startRow
      then Inl (Msg (''endRow ('' @ itoa endRow @ '') must be greater than startRow ('' @
                      itoa startRow @ '')''))
      else vmergeLoop tableIndex startRow endRow col startRow raw)"

section \<open>The package parts and the Updater\<close>

text \<open>
  The extracted package is a map from paths to bytes. \<open>os.ReadFile\<close> fails on a missing
  path. \<open>os.WriteFile\<close> opens the file, truncating it, and then writes the bytes: the
  opening can fail, which leaves the file as it was, and the writing can fail, which leaves
  the file with the bytes that were written before the failure. What the operating system
  does with the successive writes of an operation is part of the state: the list
  \<open>pending\<close> has one outcome per write to come, and when it is empty every write
  succeeds. A \<open>*Updater\<close> is an \<open>Updater option\<close>, \<open>None\<close> being the nil receiver.
\<close>

type_synonym files = "string \<Rightarrow> string option"

datatype writeOutcome = WriteOK | OpenFails | WriteFailsAfter nat

record disk =
  parts :: files
  pending :: "writeOutcome list"

record Updater =
  tempDir :: string

definition pathJoin :: "string \<Rightarrow> string list \<Rightarrow> string" where
  "pathJoin dir elems = foldl (\<lambda>p e. p @ ''/'' @ e) dir elems"

definition readFile :: "files \<Rightarrow> string \<Rightarrow> error + string" where
  "readFile fs path =
     (case fs path of
        None \<Rightarrow> Inl (Msg (''open '' @ path @ '': no such file or directory''))
      | Some bytes \<Rightarrow> Inr bytes)"

definition putFile :: "files \<Rightarrow> string \<Rightarrow> string \<Rightarrow> files" where
  "putFile fs path bytes = fs(path \<mapsto> bytes)"

definition writeFile :: "disk \<Rightarrow> string \<Rightarrow> string \<Rightarrow> error option \<times> disk" where
  "writeFile d path bytes =
     (case pending d of
        [] \<Rightarrow> (None, \<lparr>parts = putFile (parts d) path bytes, pending = []\<rparr>)
      | WriteOK # rest \<Rightarrow> (None, \<lparr>parts = putFile (parts d) path bytes, pending = rest\<rparr>)
      | OpenFails # rest \<Rightarrow> (Some (PathError ''open'' path), \<lparr>parts = parts d, pending = rest\<rparr>)
      | WriteFailsAfter k # rest \<Rightarrow>
          (Some (PathError ''write'' path),
           \<lparr>parts = putFile (parts d) path (take k bytes), pending = rest\<rparr>))"

text \<open>The next write succeeds.\<close>

definition writeSucceeds :: "disk \<Rightarrow> bool" where
  "writeSucceeds d \<longleftrightarrow> (case pending d of [] \<Rightarrow> True | w # rest \<Rightarrow> w = WriteOK)"

definition MergeTableCellsHorizontal ::
  "Updater option \<Rightarrow> int \<Rightarrow> int \<Rightarrow> int \<Rightarrow> int \<Rightarrow> disk \<Rightarrow> error option \<times> disk" where
  "MergeTableCellsHorizontal u tableIndex row startCol endCol d =
     (case u of
        None \<Rightarrow> (Some (Msg ''updater is nil''), d)
      | Some up \<Rightarrow>
          if tableIndex < 1 then (Some (Msg ''tableIndex must be >= 1''), d)
          else if row < 1 then (Some (Msg ''row must be >= 1''), d)
          else if startCol < 1 then (Some (Msg ''startCol must be >= 1''), d)
          else if endCol \<le> startCol
          then (Some (Msg ''endCol must be greater than startCol''), d)
          else
            let docPath = pathJoin (tempDir up) [''word'', ''document.xml''] in
            case readFile (parts d) docPath of
              Inl err \<Rightarrow> (Some (Wrapped ''read document.xml'' err), d)
            | Inr raw \<Rightarrow>
                (case mergeTableCellsHorizontal raw tableIndex row startCol endCol of
                   Inl err \<Rightarrow> (Some err, d)
                 | Inr updated \<Rightarrow> writeFile d docPath updated))"

definition MergeTableCellsVertical ::
  "Updater option \<Rightarrow> int \<Rightarrow> int \<Rightarrow> int \<Rightarrow> int \<Rightarrow> disk \<Rightarrow> error option \<times> disk" where
  "MergeTableCellsVertical u tableIndex startRow endRow col d =
     (case u of
        None \<Rightarrow> (Some (Msg ''updater is nil''), d)
      | Some up \<Rightarrow>
          if tableIndex < 1 then (Some (Msg ''tableIndex must be >= 1''), d)
          else if col < 1 then (Some (Msg ''col must be >= 1''), d)
          else if startRow < 1 then (Some (Msg ''startRow must be >= 1''), d)
          else if endRow \<le> startRow
          then (Some (Msg ''endRow must be greater than startRow''), d)
          else
            let docPath = pathJoin (tempDir up) [''word'', ''document.xml''] in
            case readFile (parts d) docPath of
              Inl err \<Rightarrow> (Some (Wrapped ''read document.xml'' err), d)
            | Inr raw \<Rightarrow>
                (case mergeTableCellsVertical raw tableIndex startRow endRow col of
                   Inl err \<Rightarrow> (Some err, d)
                 | Inr updated \<Rightarrow> writeFile d docPath updated))"

section \<open>Counting and deleting tables\<close>

text \<open>
  \<open>regexp.FindAllIndex\<close> for a literal pattern: the number of its successive
  non-overlapping occurrences.
\<close>

function countMatches :: "string \<Rightarrow> string \<Rightarrow> nat" where
  "countMatches p s =
     (if s = [] \<or> p = [] then 0
      else if prefix p s then Suc (countMatches p (drop (length p) s))
      else countMatches p (tl s))"
  by pat_completeness auto
termination
  by (relation "measure (\<lambda>(p, s). length s)") auto

definition GetTableCount :: "Updater option \<Rightarrow> disk \<Rightarrow> error + int" where
  "GetTableCount u d =
     (case u of
        None \<Rightarrow> Inl (Msg ''updater is nil'')
      | Some up \<Rightarrow>
          (case readFile (parts d) (pathJoin (tempDir up) [''word'', ''document.xml'']) of
             Inl err \<Rightarrow> Inl (Wrapped ''read document.xml'' err)
           | Inr raw \<Rightarrow> Inr (int (countMatches ''<w:tbl>'' raw))))"

text \<open>
  \<open>FindAllIndex\<close> for \<open>(?s)<w:tbl>.*?</w:tbl>\<close>: each match runs from the next
  \<open><w:tbl>\<close> to the first \<open></w:tbl>\<close> behind it; spans are relative to the string given.
\<close>

function findAllTables :: "string \<Rightarrow> (nat \<times> nat) list" where
  "findAllTables s =
     (case strIndex s ''<w:tbl>'' of
        None \<Rightarrow> []
      | Some i \<Rightarrow>
          (case strIndex (drop (i + 7) s) ''</w:tbl>'' of
             None \<Rightarrow> []
           | Some j \<Rightarrow>
               (i, i + 7 + j + 8) #
               map (shiftSpan (i + 7 + j + 8)) (findAllTables (drop (i + 7 + j + 8) s))))"
  by pat_completeness auto
termination
  by (relation "measure length") (auto dest: strIndex_nonempty)

text \<open>
  \<open>deleteNthTable\<close>. \<open>DeleteTable\<close> has checked \<open>n \<ge> 1\<close>; for a smaller \<open>n\<close> the index
  expression \<open>tables[n-1]\<close> panics.
\<close>

definition deleteNthTable :: "string \<Rightarrow> int \<Rightarrow> error + string" where
  "deleteNthTable raw n =
     (let tables = findAllTables raw in
      if n > int (length tables)
      then Inl (Msg (''table '' @ itoa n @ '' not found (document has '' @
                      itoa (int (length tables)) @ '' tables)''))
      else if n < 1 then Inl (Msg ''panic: index out of range'')
      else let tableIdx = tables ! (nat n - 1)
           in Inr (take (fst tableIdx) raw @ drop (snd tableIdx) raw))"

definition DeleteTable :: "Updater option \<Rightarrow> int \<Rightarrow> disk \<Rightarrow> error option \<times> disk" where
  "DeleteTable u tableIndex d =
     (case u of
        None \<Rightarrow> (Some (Msg ''updater is nil''), d)
      | Some up \<Rightarrow>
          if tableIndex < 1 then (Some (Msg ''table index must be >= 1''), d)
          else
            let docPath = pathJoin (tempDir up) [''word'', ''document.xml''] in
            case readFile (parts d) docPath of
              Inl err \<Rightarrow> (Some (Wrapped ''read document.xml'' err), d)
            | Inr raw \<Rightarrow>
                (case deleteNthTable raw tableIndex of
                   Inl err \<Rightarrow> (Some (Wrapped (''delete table '' @ itoa tableIndex) err), d)
                 | Inr updated \<Rightarrow>
                     (case writeFile d docPath updated of
                        (Some err, d') \<Rightarrow> (Some (Wrapped ''write document.xml'' err), d')
                      | (None, d') \<Rightarrow> (None, d'))))"

section \<open>InsertionPlanner: where the table of contents goes\<close>

text \<open>\<open>bytes.LastIndex(s, sub)\<close>.\<close>

fun strLastIndex :: "string \<Rightarrow> string \<Rightarrow> nat option" where
  "strLastIndex [] sub = (if sub = [] then Some 0 else None)"
| "strLastIndex (c # cs) sub =
     (case strLastIndex cs sub of
        Some i \<Rightarrow> Some (Suc i)
      | None \<Rightarrow> if prefix sub (c # cs) then Some 0 else None)"

text \<open>\<open>InsertPosition\<close> is an integer type with four named values.\<close>

datatype InsertPosition =
    PositionBeginning
  | PositionEnd
  | PositionAfterText
  | PositionBeforeText
  | PositionOther int

record TOCOptions =
  Title :: string
  OutlineLevels :: string
  Position :: InsertPosition
  Anchor :: string

text \<open>
  The functions of the package that the operations below call and whose source is not at
  hand are parameters: \<open>findBodyContentStart\<close>, \<open>findParagraphRangeByAnchor\<close>,
  \<open>xmlEscape\<close>, \<open>getNextRelIDFromFile\<close>, \<open>insertParagraphAtPosition\<close> (given the
  position and the anchor of its options), \<open>writeRunTextWithControls\<close> (given as the
  text it appends), \<open>paragraphAlignmentValue\<close>, \<open>normalizeHexColor\<close> and the constant
  \<open>StyleNormal\<close>; so are the clock and the formatting of a \<open>time.Time\<close>. A
  \<open>time.Time\<close> is the number of nanoseconds since the zero time.
\<close>

type_synonym time = int

record helpers =
  findBodyContentStart :: "string \<Rightarrow> error + nat"
  findParagraphRangeByAnchor :: "string \<Rightarrow> string \<Rightarrow> error + (nat \<times> nat)"
  xmlEscape :: "string \<Rightarrow> string"
  getNextRelIDFromFile :: "files \<Rightarrow> string \<Rightarrow> error + string"
  insertParagraphAtPosition :: "string \<Rightarrow> string \<Rightarrow> InsertPosition \<Rightarrow> string \<Rightarrow> error + string"
  writeRunTextWithControls :: "string \<Rightarrow> string"
  paragraphAlignmentValue :: "string \<Rightarrow> string \<times> bool"
  normalizeHexColor :: "string \<Rightarrow> string"
  StyleNormal :: string
  timeNow :: time
  formatRFC3339 :: "time \<Rightarrow> string"

text \<open>The \<open>switch\<close> of \<open>insertTOCAtPosition\<close>: the offset \<open>insertPos\<close>.\<close>

definition tocInsertPos :: "helpers \<Rightarrow> string \<Rightarrow> TOCOptions \<Rightarrow> error + nat" where
  "tocInsertPos h docXML opts =
     (case Position opts of
        PositionBeginning \<Rightarrow> findBodyContentStart h docXML
      | PositionEnd \<Rightarrow>
          (case strIndex docXML ''</w:body>'' of
             None \<Rightarrow> Inl (Msg ''could not find </w:body> tag'')
           | Some bodyEnd \<Rightarrow>
               (case strLastIndex (take bodyEnd docXML) ''<w:sectPr'' of
                  Some sectPrPos \<Rightarrow> Inr sectPrPos
                | None \<Rightarrow> Inr bodyEnd))
      | PositionAfterText \<Rightarrow>
          if Anchor opts = [] then Inl (Msg ''anchor text required for PositionAfterText'')
          else (case findParagraphRangeByAnchor h docXML (Anchor opts) of
                  Inl err \<Rightarrow> Inl err
                | Inr (paraStart, paraEnd) \<Rightarrow> Inr paraEnd)
      | PositionBeforeText \<Rightarrow>
          if Anchor opts = [] then Inl (Msg ''anchor text required for PositionBeforeText'')
          else (case findParagraphRangeByAnchor h docXML (Anchor opts) of
                  Inl err \<Rightarrow> Inl err
                | Inr (paraStart, paraEnd) \<Rightarrow> Inr paraStart)
      | PositionOther k \<Rightarrow> Inl (Msg ''invalid insert position''))"

definition insertTOCAtPosition ::
  "helpers \<Rightarrow> string \<Rightarrow> string \<Rightarrow> TOCOptions \<Rightarrow> error + string" where
  "insertTOCAtPosition h docXML tocXML opts =
     (case tocInsertPos h docXML opts of
        Inl err \<Rightarrow> Inl err
      | Inr insertPos \<Rightarrow> Inr (take insertPos docXML @ tocXML @ drop insertPos docXML))"

definition generateTOCTitleXML :: "helpers \<Rightarrow> string \<Rightarrow> string" where
  \<open>generateTOCTitleXML h title =
     ''<w:p>'' @ ''<w:pPr>'' @ ''<w:pStyle w:val="TOCHeading"/>'' @ ''<w:jc w:val="center"/>'' @
     ''</w:pPr>'' @ ''<w:r>'' @ ''<w:rPr>'' @ ''<w:b/>'' @ ''<w:sz w:val="44"/>'' @ ''</w:rPr>'' @
     ''<w:t xml:space="preserve">'' @ xmlEscape h title @ ''</w:t>'' @ ''</w:r>'' @ ''</w:p>''\<close>

definition generateTOCXML :: "helpers \<Rightarrow> TOCOptions \<Rightarrow> string" where
  \<open>generateTOCXML h opts =
     (if Title opts \<noteq> [] then generateTOCTitleXML h (Title opts) else []) @
     ''<w:p>'' @ ''<w:pPr/>'' @
     ''<w:r>'' @ ''<w:fldChar w:fldCharType="begin"/>'' @ ''</w:r>'' @
     ''<w:r>'' @ ''<w:instrText xml:space="preserve">'' @
       xmlEscape h ('' TOC '' @ [CHR 0x5C] @ ''o "'' @ OutlineLevels opts @ ''" '' @ [CHR 0x5C] @
         ''h '' @ [CHR 0x5C] @ ''z '' @ [CHR 0x5C] @ ''u '') @
       ''</w:instrText>'' @ ''</w:r>'' @
     ''<w:r>'' @ ''<w:fldChar w:fldCharType="separate"/>'' @ ''</w:r>'' @
     ''<w:r>'' @ ''<w:rPr><w:i/></w:rPr>'' @
       ''<w:t>Update this field to show Table of Contents</w:t>'' @ ''</w:r>'' @
     ''<w:r>'' @ ''<w:fldChar w:fldCharType="end"/>'' @ ''</w:r>'' @
     ''</w:p>''\<close>

definition InsertTOC ::
  "helpers \<Rightarrow> Updater option \<Rightarrow> TOCOptions \<Rightarrow> disk \<Rightarrow> error option \<times> disk" where
  "InsertTOC h u opts0 d =
     (case u of
        None \<Rightarrow> (Some (Msg ''updater is nil''), d)
      | Some up \<Rightarrow>
          let opts = (if OutlineLevels opts0 = []
                      then OutlineLevels_update (\<lambda>_. ''1-3'') opts0 else opts0);
              tocXML = generateTOCXML h opts;
              docPath = pathJoin (tempDir up) [''word'', ''document.xml'']
          in case readFile (parts d) docPath of
               Inl err \<Rightarrow> (Some (Wrapped ''read document.xml'' err), d)
             | Inr raw \<Rightarrow>
                 (case insertTOCAtPosition h raw tocXML opts of
                    Inl err \<Rightarrow> (Some (Wrapped ''insert TOC'' err), d)
                  | Inr updated \<Rightarrow>
                      (case writeFile d docPath updated of
                         (Some err, d') \<Rightarrow> (Some (Wrapped ''write document.xml'' err), d')
                       | (None, d') \<Rightarrow> (None, d'))))"

section \<open>RelationshipGraph: registering the relationship of a notes part\<close>

text \<open>\<open>strings.Replace(s, old, new, 1)\<close>.\<close>

definition replaceFirst :: "string \<Rightarrow> string \<Rightarrow> string \<Rightarrow> string" where
  "replaceFirst s old new =
     (case strIndex s old of
        None \<Rightarrow> s
      | Some i \<Rightarrow> take i s @ new @ drop (i + length old) s)"

text \<open>The \<open>Relationship\<close> element that \<open>addNoteRelationship\<close> formats.\<close>

definition newRelationship :: "string \<Rightarrow> string \<Rightarrow> string \<Rightarrow> string" where
  \<open>newRelationship relID relType filename =
     ''<Relationship Id="'' @ relID @
     ''" Type="http://schemas.openxmlformats.org/officeDocument/2006/relationships/'' @
     relType @ ''" Target="'' @ filename @ ''"/>''\<close>

definition addNoteRelationship ::
  "helpers \<Rightarrow> Updater \<Rightarrow> string \<Rightarrow> string \<Rightarrow> disk \<Rightarrow> error option \<times> disk" where
  "addNoteRelationship h u filename relType d =
     (let relsPath = pathJoin (tempDir u) [''word'', ''_rels'', ''document.xml.rels''] in
      case readFile (parts d) relsPath of
        Inl err \<Rightarrow> (Some (Wrapped ''read rels'' err), d)
      | Inr content \<Rightarrow>
          if strContains content filename then (None, d)
          else
            (case getNextRelIDFromFile h (parts d) relsPath of
               Inl err \<Rightarrow> (Some (Wrapped ''get next rel ID'' err), d)
             | Inr relID \<Rightarrow>
                 let newRel = newRelationship relID relType filename;
                     content' = replaceFirst content ''</Relationships>''
                                  (newRel @ ''</Relationships>'')
                 in (case writeFile d relsPath content' of
                       (Some err, d') \<Rightarrow> (Some (Wrapped ''write rels'' err), d')
                     | (None, d') \<Rightarrow> (None, d'))))"

section \<open>RevisionEditor: inserting a tracked paragraph\<close>

record TrackedInsertOptions =
  tiText :: string
  tiAuthor :: string
  tiDate :: time
  tiPosition :: InsertPosition
  tiAnchor :: string
  tiStyle :: string
  tiBold :: bool
  tiItalic :: bool
  tiUnderline :: bool

definition generateTrackedInsertXMLWithID ::
  "helpers \<Rightarrow> TrackedInsertOptions \<Rightarrow> int \<Rightarrow> string" where
  \<open>generateTrackedInsertXMLWithID h opts startID =
     (let dateStr = formatRFC3339 h (tiDate opts);
          hasFormatting = (tiBold opts \<or> tiItalic opts \<or> tiUnderline opts)
      in ''<w:p>'' @ ''<w:pPr>'' @
         (if tiStyle opts \<noteq> StyleNormal h
          then ''<w:pStyle w:val="'' @ xmlEscape h (tiStyle opts) @ ''"/>'' else []) @
         ''<w:rPr><w:ins w:id="'' @ itoa startID @ ''" w:author="'' @
           xmlEscape h (tiAuthor opts) @ ''" w:date="'' @ dateStr @ ''"/></w:rPr>'' @
         ''</w:pPr>'' @
         ''<w:ins w:id="'' @ itoa (wrapInt64 (startID + 1)) @ ''" w:author="'' @
           xmlEscape h (tiAuthor opts) @ ''" w:date="'' @ dateStr @ ''">'' @
         ''<w:r>'' @
         (if hasFormatting
          then ''<w:rPr>'' @ (if tiBold opts then ''<w:b/>'' else []) @
               (if tiItalic opts then ''<w:i/>'' else []) @
               (if tiUnderline opts then ''<w:u w:val="single"/>'' else []) @ ''</w:rPr>''
          else []) @
         writeRunTextWithControls h (tiText opts) @
         ''</w:r>'' @ ''</w:ins>'' @ ''</w:p>'')\<close>

definition insertTrackedAtPosition ::
  "helpers \<Rightarrow> string \<Rightarrow> string \<Rightarrow> TrackedInsertOptions \<Rightarrow> error + string" where
  "insertTrackedAtPosition h docXML trackedXML opts =
     insertParagraphAtPosition h docXML trackedXML (tiPosition opts) (tiAnchor opts)"

definition InsertTrackedText ::
  "helpers \<Rightarrow> Updater option \<Rightarrow> TrackedInsertOptions \<Rightarrow> disk \<Rightarrow> error option \<times> disk" where
  "InsertTrackedText h u opts0 d =
     (case u of
        None \<Rightarrow> (Some (Msg ''updater is nil''), d)
      | Some up \<Rightarrow>
          if tiText opts0 = [] then (Some (Msg ''text cannot be empty''), d)
          else
            let opts1 = (if tiAuthor opts0 = [] then tiAuthor_update (\<lambda>_. ''Author'') opts0
                         else opts0);
                opts2 = (if tiDate opts1 = 0 then tiDate_update (\<lambda>_. timeNow h) opts1
                         else opts1);
                opts = (if tiStyle opts2 = [] then tiStyle_update (\<lambda>_. StyleNormal h) opts2
                        else opts2);
                docPath = pathJoin (tempDir up) [''word'', ''document.xml'']
            in case readFile (parts d) docPath of
                 Inl err \<Rightarrow> (Some (Wrapped ''read document.xml'' err), d)
               | Inr raw \<Rightarrow>
                   let startID = getNextRevisionID raw;
                       trackedXML = generateTrackedInsertXMLWithID h opts startID
                   in (case insertTrackedAtPosition h raw trackedXML opts of
                         Inl err \<Rightarrow> (Some (Wrapped ''insert tracked text'' err), d)
                       | Inr updated \<Rightarrow>
                           (case writeFile d docPath updated of
                              (Some err, d') \<Rightarrow> (Some (Wrapped ''write document.xml'' err), d')
                            | (None, d') \<Rightarrow> (None, d'))))"

section \<open>AnchorResolver\<close>

text \<open>
  Modelled from the spec: \<open>findParagraphRangeByAnchor\<close> and \<open>extractParagraphPlainText\<close>
  are called by the code at hand but their source is missing. Following section 4.2 of the
  specification, the resolver visits the paragraph elements in document order, renders each
  one as the concatenation of the text of its runs, markup left out, and returns the span of
  the first paragraph whose rendered text contains the anchor.
\<close>

text \<open>
  Modelled from the spec: markup is what stands between a \<open><\<close> and the next \<open>>\<close>.
  \<open>splitTag\<close> is given the bytes behind a \<open><\<close> and returns the inside of the tag and
  the bytes behind its \<open>>\<close>, when there is one.
\<close>

fun splitTag :: "string \<Rightarrow> (string \<times> string) option" where
  "splitTag [] = None"
| "splitTag (c # cs) =
     (if c = CHR ''>'' then Some ([], cs)
      else map_option (\<lambda>(tag, rest). (c # tag, rest)) (splitTag cs))"

lemma splitTag_length: "splitTag cs = Some (tag, rest) \<Longrightarrow> length rest < length cs"
  by (induction cs arbitrary: tag) (auto split: if_splits)

text \<open>
  Modelled from the spec: the inside of a tag of the element \<open>name\<close>, with or without
  attributes, and whether the tag closes itself.
\<close>

definition elementTag :: "string \<Rightarrow> string \<Rightarrow> bool" where
  "elementTag name tag \<longleftrightarrow> tag = name \<or> tag = name @ ''/'' \<or> prefix (name @ '' '') tag"

definition selfClosing :: "string \<Rightarrow> bool" where
  "selfClosing tag \<longleftrightarrow> tag \<noteq> [] \<and> last tag = CHR ''/''"

text \<open>
  Modelled from the spec: the rendered text of a paragraph is the concatenation of the
  contents of its text runs, stripped of markup. The scan keeps whether it is inside a
  \<open>w:t\<close> element; bytes inside one are text, tags and all other bytes are left out.
\<close>

function renderText :: "bool \<Rightarrow> string \<Rightarrow> string" where
  "renderText inText [] = []"
| "renderText inText (c # cs) =
     (if c = CHR ''<''
      then (case splitTag cs of
              None \<Rightarrow> []
            | Some (tag, rest) \<Rightarrow>
                renderText (if elementTag ''w:t'' tag \<and> \<not> selfClosing tag then True
                            else if tag = ''/w:t'' then False
                            else inText) rest)
      else if inText then c # renderText inText cs
      else renderText inText cs)"
  by pat_completeness auto
termination
  by (relation "measure (\<lambda>(inText, s). length s)") (auto dest: splitTag_length)

text \<open>
  Modelled from the spec: \<open>extractParagraphPlainText\<close>, the rendered text of the bytes of
  one paragraph; the scan starts outside every text element.
\<close>

definition paragraphPlainText :: "string \<Rightarrow> string" where
  "paragraphPlainText para = renderText False para"

text \<open>
  Modelled from the spec: the paragraph elements in document order. A paragraph runs from
  its opening tag to the first closing tag behind it; a self-closing paragraph tag is a
  paragraph without text. The span of the first paragraph whose rendered text contains the
  anchor is returned; first match wins.
\<close>

function findParagraphFrom :: "nat \<Rightarrow> string \<Rightarrow> string \<Rightarrow> error + (nat \<times> nat)" where
  "findParagraphFrom off [] anchor = Inl (Msg ''anchor not found'')"
| "findParagraphFrom off (c # cs) anchor =
     (case (if c = CHR ''<'' then splitTag cs else None) of
        None \<Rightarrow> findParagraphFrom (off + 1) cs anchor
      | Some (tag, rest) \<Rightarrow>
          if \<not> elementTag ''w:p'' tag then findParagraphFrom (off + 1) cs anchor
          else if selfClosing tag
          then (if strContains [] anchor then Inr (off, off + (length tag + 2))
                else findParagraphFrom (off + 1) cs anchor)
          else (case strIndex rest ''</w:p>'' of
                  None \<Rightarrow> Inl (Msg ''anchor not found'')
                | Some k \<Rightarrow>
                    let n = length tag + 2 + k + length ''</w:p>'' in
                    if strContains (paragraphPlainText (take n (c # cs))) anchor
                    then Inr (off, off + n)
                    else findParagraphFrom (off + n) (drop n (c # cs)) anchor))"
  by pat_completeness auto
termination
  by (relation "measure (\<lambda>(off, s, anchor). length s)") auto

text \<open>
  Modelled from the spec: \<open>findParagraphRangeByAnchor\<close>, the contract
  \<open>findParagraphRange(buffer, anchorText)\<close> of section 4.2: the scan from offset 0.
\<close>

definition findParagraphRange :: "string \<Rightarrow> string \<Rightarrow> error + (nat \<times> nat)" where
  "findParagraphRange buffer anchor = findParagraphFrom 0 buffer anchor"

subsection \<open>Documents made of paragraphs made of runs\<close>







section \<open>Notes: inserting a footnote\<close>

record FootnoteOptions =
  fnText :: string
  fnAnchor :: string

definition generateInitialFootnotesXML :: string where
  \<open>generateInitialFootnotesXML =
     ''<?xml version="1.0" encoding="UTF-8" standalone="yes"?>'' @ [CHR 0x0A] @
     ''<w:footnotes xmlns:w="http://schemas.openxmlformats.org/wordprocessingml/2006/main" '' @
     ''xmlns:r="http://schemas.openxmlformats.org/officeDocument/2006/relationships">'' @
     [CHR 0x0A] @
     ''<w:footnote w:type="separator" w:id="-1">'' @
     ''<w:p><w:pPr><w:spacing w:after="0" w:line="240" w:lineRule="auto"/></w:pPr>'' @
     ''<w:r><w:separator/></w:r></w:p>'' @
     ''</w:footnote>'' @ [CHR 0x0A] @
     ''<w:footnote w:type="continuationSeparator" w:id="0">'' @
     ''<w:p><w:pPr><w:spacing w:after="0" w:line="240" w:lineRule="auto"/></w:pPr>'' @
     ''<w:r><w:continuationSeparator/></w:r></w:p>'' @
     ''</w:footnote>'' @ [CHR 0x0A] @
     ''</w:footnotes>''\<close>

definition generateFootnoteEntry :: "helpers \<Rightarrow> int \<Rightarrow> string \<Rightarrow> string" where
  \<open>generateFootnoteEntry h id' text =
     ''<w:footnote w:id="'' @ itoa id' @ ''">'' @
     ''<w:p>'' @
     ''<w:pPr><w:pStyle w:val="FootnoteText"/></w:pPr>'' @
     ''<w:r>'' @
     ''<w:rPr><w:rStyle w:val="FootnoteReference"/></w:rPr>'' @
     ''<w:footnoteRef/>'' @
     ''</w:r>'' @
     ''<w:r>'' @
     ''<w:t xml:space="preserve"> '' @ xmlEscape h text @ ''</w:t>'' @
     ''</w:r>'' @
     ''</w:p>'' @
     ''</w:footnote>''\<close>

definition addNoteContentType ::
  "Updater \<Rightarrow> string \<Rightarrow> string \<Rightarrow> disk \<Rightarrow> error option \<times> disk" where
  \<open>addNoteContentType u filename noteType d =
     (let ctPath = pathJoin (tempDir u) [''[Content_Types].xml''] in
      case readFile (parts d) ctPath of
        Inl err \<Rightarrow> (Some (Wrapped ''read content types'' err), d)
      | Inr content \<Rightarrow>
          if strContains content filename then (None, d)
          else
            let contentType =
                  ''application/vnd.openxmlformats-officedocument.wordprocessingml.'' @
                  noteType @ ''+xml'';
                override = ''<Override PartName="/word/'' @ filename @ ''" ContentType="'' @
                           contentType @ ''"/>'';
                content' = replaceFirst content ''</Types>'' (override @ ''</Types>'')
            in (case writeFile d ctPath content' of
                  (Some err, d') \<Rightarrow> (Some (Wrapped ''write content types'' err), d')
                | (None, d') \<Rightarrow> (None, d')))\<close>

text \<open>
  \<open>ensureFootnotesXML\<close>: \<open>os.Stat\<close> reports that the part does not exist exactly when the
  map has no bytes for its path.
\<close>

definition ensureFootnotesXML :: "helpers \<Rightarrow> Updater \<Rightarrow> disk \<Rightarrow> (error + int) \<times> disk" where
  "ensureFootnotesXML h u d =
     (let fnPath = pathJoin (tempDir u) [''word'', ''footnotes.xml''] in
      if parts d fnPath = None
      then
        let content = generateInitialFootnotesXML in
        (case writeFile d fnPath content of
           (Some err, d1) \<Rightarrow> (Inl (Wrapped ''write footnotes.xml'' err), d1)
         | (None, d1) \<Rightarrow>
             (case addNoteRelationship h u ''footnotes.xml'' ''footnotes'' d1 of
                (Some err, d2) \<Rightarrow> (Inl (Wrapped ''add footnotes relationship'' err), d2)
              | (None, d2) \<Rightarrow>
                  (case addNoteContentType u ''footnotes.xml'' ''footnotes'' d2 of
                     (Some err, d3) \<Rightarrow> (Inl (Wrapped ''add footnotes content type'' err), d3)
                   | (None, d3) \<Rightarrow> (Inr 1, d3))))
      else
        (case readFile (parts d) fnPath of
           Inl err \<Rightarrow> (Inl (Wrapped ''read footnotes.xml'' err), d)
         | Inr raw \<Rightarrow> (Inr (getNextNoteID raw ''footnote''), d)))"

definition addFootnoteContent ::
  "helpers \<Rightarrow> Updater \<Rightarrow> int \<Rightarrow> string \<Rightarrow> disk \<Rightarrow> error option \<times> disk" where
  "addFootnoteContent h u id' text d =
     (let fnPath = pathJoin (tempDir u) [''word'', ''footnotes.xml''] in
      case readFile (parts d) fnPath of
        Inl err \<Rightarrow> (Some (Wrapped ''read footnotes.xml'' err), d)
      | Inr raw \<Rightarrow>
          let footnoteXML = generateFootnoteEntry h id' text in
          (case strLastIndex raw ''</w:footnotes>'' of
             None \<Rightarrow> (Some (Msg ''could not find </w:footnotes> tag''), d)
           | Some closeIdx \<Rightarrow>
               let result = take closeIdx raw @ footnoteXML @ [CHR 0x0A] @ drop closeIdx raw in
               (case writeFile d fnPath result of
                  (Some err, d') \<Rightarrow> (Some (Wrapped ''write footnotes.xml'' err), d')
                | (None, d') \<Rightarrow> (None, d'))))"

text \<open>
  \<open>insertNoteReference\<close>. The slice expressions \<open>raw[:insertPos]\<close> and \<open>raw[insertPos:]\<close>
  panic when \<open>insertPos\<close> is negative or beyond the buffer.
\<close>

definition insertNoteReference ::
  "helpers \<Rightarrow> Updater \<Rightarrow> string \<Rightarrow> int \<Rightarrow> string \<Rightarrow> disk \<Rightarrow> error option \<times> disk" where
  \<open>insertNoteReference h u anchor noteID noteType d =
     (let docPath = pathJoin (tempDir u) [''word'', ''document.xml''] in
      case readFile (parts d) docPath of
        Inl err \<Rightarrow> (Some (Wrapped ''read document.xml'' err), d)
      | Inr raw \<Rightarrow>
          (case findParagraphRangeByAnchor h raw anchor of
             Inl err \<Rightarrow> (Some (Wrapped ''find anchor'' err), d)
           | Inr (paraStart, paraEnd) \<Rightarrow>
               let refXML =
                     (if noteType = ''footnote''
                      then ''<w:r><w:rPr><w:rStyle w:val="FootnoteReference"/></w:rPr>'' @
                           ''<w:footnoteReference w:id="'' @ itoa noteID @ ''"/></w:r>''
                      else ''<w:r><w:rPr><w:rStyle w:val="EndnoteReference"/></w:rPr>'' @
                           ''<w:endnoteReference w:id="'' @ itoa noteID @ ''"/></w:r>'')
               in if paraEnd < length ''</w:p>'' \<or> length raw < paraEnd - length ''</w:p>''
                  then (Some (Msg ''panic: slice bounds out of range''), d)
                  else
                    let insertPos = paraEnd - length ''</w:p>'';
                        result = take insertPos raw @ refXML @ drop insertPos raw
                    in (case writeFile d docPath result of
                          (Some err, d') \<Rightarrow> (Some (Wrapped ''write document.xml'' err), d')
                        | (None, d') \<Rightarrow> (None, d'))))\<close>

definition InsertFootnote ::
  "helpers \<Rightarrow> Updater option \<Rightarrow> FootnoteOptions \<Rightarrow> disk \<Rightarrow> error option \<times> disk" where
  "InsertFootnote h u opts d =
     (case u of
        None \<Rightarrow> (Some (Msg ''updater is nil''), d)
      | Some up \<Rightarrow>
          if fnText opts = [] then (Some (Msg ''footnote text cannot be empty''), d)
          else if fnAnchor opts = [] then (Some (Msg ''anchor text cannot be empty''), d)
          else
            (case ensureFootnotesXML h up d of
               (Inl err, d1) \<Rightarrow> (Some (Wrapped ''ensure footnotes.xml'' err), d1)
             | (Inr footnoteID, d1) \<Rightarrow>
                 (case addFootnoteContent h up footnoteID (fnText opts) d1 of
                    (Some err, d2) \<Rightarrow> (Some (Wrapped ''add footnote content'' err), d2)
                  | (None, d2) \<Rightarrow>
                      (case insertNoteReference h up (fnAnchor opts) footnoteID ''footnote'' d2 of
                         (Some err, d3) \<Rightarrow> (Some (Wrapped ''insert footnote reference'' err), d3)
                       | (None, d3) \<Rightarrow> (None, d3)))))"

section \<open>Styles: adding style definitions\<close>

text \<open>
  \<open>StyleDefinition\<close>. \<open>StyleType\<close> is a string type; the declaration of
  \<open>ParagraphAlignment\<close> is not at hand and it is taken to be one too.
\<close>

record StyleDefinition =
  sdID :: string
  sdName :: string
  sdType :: string
  sdBasedOn :: string
  sdNextStyle :: string
  sdFontFamily :: string
  sdFontSize :: int
  sdColor :: string
  sdBold :: bool
  sdItalic :: bool
  sdUnderline :: bool
  sdStrikethrough :: bool
  sdAllCaps :: bool
  sdSmallCaps :: bool
  sdAlignment :: string
  sdSpaceBefore :: int
  sdSpaceAfter :: int
  sdLineSpacing :: int
  sdIndentLeft :: int
  sdIndentRight :: int
  sdIndentFirst :: int
  sdKeepNext :: bool
  sdKeepLines :: bool
  sdPageBreakBef :: bool
  sdOutlineLevel :: int

definition StyleTypeParagraph :: string where
  "StyleTypeParagraph = ''paragraph''"

definition generateStyleParagraphProps :: "helpers \<Rightarrow> StyleDefinition \<Rightarrow> string" where
  \<open>generateStyleParagraphProps h def =
     (let alignment = fst (paragraphAlignmentValue h (sdAlignment def));
          ok = snd (paragraphAlignmentValue h (sdAlignment def));
          spacing = (sdSpaceBefore def > 0 \<or> sdSpaceAfter def > 0 \<or> sdLineSpacing def > 0);
          ind = (sdIndentLeft def > 0 \<or> sdIndentRight def > 0 \<or> sdIndentFirst def \<noteq> 0);
          outline = (sdOutlineLevel def > 0 \<and> sdOutlineLevel def \<le> 9);
          inner =
            (if ok then ''<w:jc w:val="'' @ alignment @ ''"/>'' else []) @
            (if spacing
             then ''<w:spacing'' @
                  (if sdSpaceBefore def > 0
                   then '' w:before="'' @ itoa (sdSpaceBefore def) @ ''"'' else []) @
                  (if sdSpaceAfter def > 0
                   then '' w:after="'' @ itoa (sdSpaceAfter def) @ ''"'' else []) @
                  (if sdLineSpacing def > 0
                   then '' w:line="'' @ itoa (sdLineSpacing def) @ ''" w:lineRule="auto"''
                   else []) @
                  ''/>''
             else []) @
            (if ind
             then ''<w:ind'' @
                  (if sdIndentLeft def > 0
                   then '' w:left="'' @ itoa (sdIndentLeft def) @ ''"'' else []) @
                  (if sdIndentRight def > 0
                   then '' w:right="'' @ itoa (sdIndentRight def) @ ''"'' else []) @
                  (if sdIndentFirst def \<noteq> 0
                   then '' w:firstLine="'' @ itoa (sdIndentFirst def) @ ''"'' else []) @
                  ''/>''
             else []) @
            (if sdKeepNext def then ''<w:keepNext/>'' else []) @
            (if sdKeepLines def then ''<w:keepLines/>'' else []) @
            (if sdPageBreakBef def then ''<w:pageBreakBefore/>'' else []) @
            (if outline
             then ''<w:outlineLvl w:val="'' @ itoa (sdOutlineLevel def - 1) @ ''"/>'' else []);
          hasProps = (ok \<or> spacing \<or> ind \<or> sdKeepNext def \<or> sdKeepLines def \<or>
                      sdPageBreakBef def \<or> outline)
      in if hasProps then ''<w:pPr>'' @ inner @ ''</w:pPr>'' else [])\<close>

definition generateStyleRunProps :: "helpers \<Rightarrow> StyleDefinition \<Rightarrow> string" where
  \<open>generateStyleRunProps h def =
     (let escaped = xmlEscape h (sdFontFamily def);
          color = (if normalizeHexColor h (sdColor def) = [] then sdColor def
                   else normalizeHexColor h (sdColor def));
          inner =
            (if sdFontFamily def \<noteq> []
             then ''<w:rFonts w:ascii="'' @ escaped @ ''" w:hAnsi="'' @ escaped @ ''" w:cs="'' @
                  escaped @ ''"/>''
             else []) @
            (if sdBold def then ''<w:b/>'' else []) @
            (if sdItalic def then ''<w:i/>'' else []) @
            (if sdUnderline def then ''<w:u w:val="single"/>'' else []) @
            (if sdStrikethrough def then ''<w:strike/>'' else []) @
            (if sdAllCaps def then ''<w:caps/>'' else []) @
            (if sdSmallCaps def then ''<w:smallCaps/>'' else []) @
            (if sdFontSize def > 0
             then ''<w:sz w:val="'' @ itoa (sdFontSize def) @ ''"/>'' @
                  ''<w:szCs w:val="'' @ itoa (sdFontSize def) @ ''"/>''
             else []) @
            (if sdColor def \<noteq> []
             then ''<w:color w:val="'' @ xmlEscape h color @ ''"/>'' else []);
          hasProps = (sdFontFamily def \<noteq> [] \<or> sdBold def \<or> sdItalic def \<or> sdUnderline def \<or>
                      sdStrikethrough def \<or> sdAllCaps def \<or> sdSmallCaps def \<or>
                      sdFontSize def > 0 \<or> sdColor def \<noteq> [])
      in if hasProps then ''<w:rPr>'' @ inner @ ''</w:rPr>'' else [])\<close>

definition generateStyleXML :: "helpers \<Rightarrow> StyleDefinition \<Rightarrow> string" where
  \<open>generateStyleXML h def =
     ''<w:style w:type="'' @ xmlEscape h (sdType def) @ ''" w:styleId="'' @
       xmlEscape h (sdID def) @ ''">'' @
     ''<w:name w:val="'' @ xmlEscape h (sdName def) @ ''"/>'' @
     (if sdBasedOn def \<noteq> []
      then ''<w:basedOn w:val="'' @ xmlEscape h (sdBasedOn def) @ ''"/>'' else []) @
     (if sdNextStyle def \<noteq> []
      then ''<w:next w:val="'' @ xmlEscape h (sdNextStyle def) @ ''"/>'' else []) @
     (if sdType def = StyleTypeParagraph then generateStyleParagraphProps h def else []) @
     generateStyleRunProps h def @
     ''</w:style>''\<close>

definition generateStylesDocument :: "string \<Rightarrow> string" where
  \<open>generateStylesDocument styleXML =
     ''<?xml version="1.0" encoding="UTF-8" standalone="yes"?>'' @ [CHR 0x0A] @
     ''<w:styles xmlns:w="http://schemas.openxmlformats.org/wordprocessingml/2006/main">'' @
     [CHR 0x0A] @ styleXML @ [CHR 0x0A] @ ''</w:styles>''\<close>

definition injectStyle :: "string \<Rightarrow> string \<Rightarrow> error + string" where
  "injectStyle stylesXML styleXML =
     (case strLastIndex stylesXML ''</w:styles>'' of
        None \<Rightarrow> Inl (Msg ''could not find </w:styles> closing tag'')
      | Some closeIdx \<Rightarrow>
          Inr (take closeIdx stylesXML @ styleXML @ [CHR 0x0A] @ drop closeIdx stylesXML))"

definition ensureStylesRelationship :: "helpers \<Rightarrow> Updater \<Rightarrow> disk \<Rightarrow> error option \<times> disk" where
  \<open>ensureStylesRelationship h u d =
     (let relsPath = pathJoin (tempDir u) [''word'', ''_rels'', ''document.xml.rels''];
          ctPath = pathJoin (tempDir u) [''[Content_Types].xml''];
          contentTypes = (\<lambda>d1.
            case readFile (parts d1) ctPath of
              Inl err \<Rightarrow> (Some (Wrapped ''read content types'' err), d1)
            | Inr ctContent \<Rightarrow>
                if \<not> strContains ctContent ''styles.xml''
                then
                  let override =
                        ''<Override PartName="/word/styles.xml" ContentType="'' @
                        ''application/vnd.openxmlformats-officedocument.wordprocessingml.styles+xml"/>'';
                      ctContent' = replaceFirst ctContent ''</Types>'' (override @ ''</Types>'')
                  in (case writeFile d1 ctPath ctContent' of
                        (Some err, d2) \<Rightarrow> (Some (Wrapped ''write content types'' err), d2)
                      | (None, d2) \<Rightarrow> (None, d2))
                else (None, d1))
      in case readFile (parts d) relsPath of
           Inl err \<Rightarrow> (Some (Wrapped ''read rels'' err), d)
         | Inr content \<Rightarrow>
             if \<not> strContains content ''styles.xml''
             then
               (case getNextRelIDFromFile h (parts d) relsPath of
                  Inl err \<Rightarrow> (Some (Wrapped ''get next rel ID'' err), d)
                | Inr relID \<Rightarrow>
                    let newRel =
                          ''<Relationship Id="'' @ relID @
                          ''" Type="http://schemas.openxmlformats.org/officeDocument/2006/relationships/styles" Target="styles.xml"/>'';
                        content' = replaceFirst content ''</Relationships>''
                                     (newRel @ ''</Relationships>'')
                    in (case writeFile d relsPath content' of
                          (Some err, d1) \<Rightarrow> (Some (Wrapped ''write rels'' err), d1)
                        | (None, d1) \<Rightarrow> contentTypes d1))
             else contentTypes d)\<close>

definition AddStyle ::
  "helpers \<Rightarrow> Updater option \<Rightarrow> StyleDefinition \<Rightarrow> disk \<Rightarrow> error option \<times> disk" where
  "AddStyle h u def0 d =
     (case u of
        None \<Rightarrow> (Some (Msg ''updater is nil''), d)
      | Some up \<Rightarrow>
          if sdID def0 = [] then (Some (Msg ''style ID cannot be empty''), d)
          else
            let def1 = (if sdName def0 = [] then sdName_update (\<lambda>_. sdID def0) def0 else def0);
                def = (if sdType def1 = [] then sdType_update (\<lambda>_. StyleTypeParagraph) def1
                       else def1);
                styleXML = generateStyleXML h def;
                stylesPath = pathJoin (tempDir up) [''word'', ''styles.xml'']
            in case readFile (parts d) stylesPath of
                 Inl err \<Rightarrow>
                   (let updated = generateStylesDocument styleXML in
                    case writeFile d stylesPath updated of
                      (Some err, d1) \<Rightarrow> (Some (Wrapped ''write styles.xml'' err), d1)
                    | (None, d1) \<Rightarrow>
                        (case ensureStylesRelationship h up d1 of
                           (Some err, d2) \<Rightarrow>
                             (Some (Wrapped ''ensure styles relationship'' err), d2)
                         | (None, d2) \<Rightarrow> (None, d2)))
               | Inr raw \<Rightarrow>
                   (case injectStyle raw styleXML of
                      Inl err \<Rightarrow> (Some (Wrapped ''inject style'' err), d)
                    | Inr updated \<Rightarrow>
                        (case writeFile d stylesPath updated of
                           (Some err, d1) \<Rightarrow> (Some (Wrapped ''write styles.xml'' err), d1)
                         | (None, d1) \<Rightarrow> (None, d1))))"

text \<open>
  \<open>AddStyles\<close>: the loop \<open>for i, def := range defs\<close>, from index \<open>i\<close> on. The method
  calls \<open>u.AddStyle\<close> for each definition and tests nothing itself.
\<close>

fun AddStylesFrom ::
  "helpers \<Rightarrow> Updater option \<Rightarrow> nat \<Rightarrow> StyleDefinition list \<Rightarrow> disk \<Rightarrow> error option \<times> disk" where
  "AddStylesFrom h u i [] d = (None, d)"
| "AddStylesFrom h u i (def # defs) d =
     (case AddStyle h u def d of
        (Some err, d') \<Rightarrow>
          (Some (Wrapped (''add style '' @ itoa (int i) @ '' ('' @ sdID def @ '')'') err), d')
      | (None, d') \<Rightarrow> AddStylesFrom h u (i + 1) defs d')"

definition AddStyles ::
  "helpers \<Rightarrow> Updater option \<Rightarrow> StyleDefinition list \<Rightarrow> disk \<Rightarrow> error option \<times> disk" where
  "AddStyles h u defs d = AddStylesFrom h u 0 defs d"

section \<open>Worked examples: an updater and its parts\<close>

text \<open>
  Stand-ins for the functions whose source is not at hand, for the worked examples: the
  anchor resolver is the one modelled above.
\<close>

definition exampleHelpers :: helpers where
  "exampleHelpers =
     \<lparr>findBodyContentStart = (\<lambda>docXML. Inl (Msg ''no body'')),
      findParagraphRangeByAnchor = findParagraphRange,
      xmlEscape = (\<lambda>s. s),
      getNextRelIDFromFile = (\<lambda>fs path. Inr ''rId9''),
      insertParagraphAtPosition = (\<lambda>docXML paraXML pos anchor. Inl (Msg ''anchor not found'')),
      writeRunTextWithControls = (\<lambda>s. ''<w:t>'' @ s @ ''</w:t>''),
      paragraphAlignmentValue = (\<lambda>a. (a, a \<noteq> [])),
      normalizeHexColor = (\<lambda>c. c),
      StyleNormal = ''Normal'',
      timeNow = 0,
      formatRFC3339 = (\<lambda>t. ''0001-01-01T00:00:00Z'')\<rparr>"

definition exampleUpdater :: Updater where
  "exampleUpdater = \<lparr>tempDir = ''/tmp/docx''\<rparr>"

definition noFiles :: files where
  "noFiles = (\<lambda>path. None)"

definition relsFiles :: "string \<Rightarrow> files" where
  "relsFiles content = putFile noFiles ''/tmp/docx/word/_rels/document.xml.rels'' content"

definition docFiles :: "string \<Rightarrow> files" where
  "docFiles content = putFile noFiles ''/tmp/docx/word/document.xml'' content"

text \<open>A document with one paragraph, beside a notes part without notes.\<close>

definition helloDocument :: string where
  "helloDocument = ''<w:body><w:p><w:r><w:t>Hello</w:t></w:r></w:p></w:body>''"

definition notesFiles :: files where
  "notesFiles =
     putFile (docFiles helloDocument) ''/tmp/docx/word/footnotes.xml''
       ''<w:footnotes></w:footnotes>''"

text \<open>A disk on which every write succeeds, and one whose next write fails.\<close>

definition okDisk :: "files \<Rightarrow> disk" where
  "okDisk fs = \<lparr>parts = fs, pending = []\<rparr>"

definition faultyDisk :: "files \<Rightarrow> writeOutcome \<Rightarrow> disk" where
  "faultyDisk fs w = \<lparr>parts = fs, pending = [w]\<rparr>"

definition relsWithStyles :: string where
  \<open>relsWithStyles =
     ''<Relationships><Relationship Id="rId1" Type="t" Target="styles.xml"/></Relationships>''\<close>

definition relsWithOldFootnotes :: string where
  \<open>relsWithOldFootnotes =
     ''<Relationships><Relationship Id="rId1" Type="t" Target="oldfootnotes.xml"/></Relationships>''\<close>

definition twoRowTable :: string where
  "twoRowTable =
     ''<w:body><w:tbl><w:tr><w:tc><w:p/></w:tc></w:tr><w:tr><w:tc><w:p/></w:tc></w:tr></w:tbl></w:body>''"

section \<open>Blocks as a list of contents\<close>

text \<open>The bytes of the blocks the scan visits, in order.\<close>

definition blockContents :: "string \<Rightarrow> string \<Rightarrow> string list" where
  "blockContents tag c = map (\<lambda>sp. slice c (fst sp) (snd sp)) (blockSpans tag c)"



text \<open>A body whose final section properties record a change of the section properties.\<close>

definition sectPrChangeBody :: string where
  \<open>sectPrChangeBody =
     ''<w:body><w:p/><w:sectPr><w:sectPrChange w:id="1"><w:sectPr/></w:sectPrChange></w:sectPr></w:body>''\<close>

section \<open>Markup patterns\<close>

text \<open>
  A tag pattern starts with \<open><\<close>, has no other \<open><\<close>, and has \<open>>\<close> at most as its last
  character: the opening and closing tags the editor searches for are of this kind.
\<close>

definition tagPattern :: "string \<Rightarrow> bool" where
  "tagPattern p \<longleftrightarrow>
     p \<noteq> [] \<and> hd p = CHR ''<'' \<and> CHR ''<'' \<notin> set (tl p) \<and> CHR ''>'' \<notin> set (butlast p)"

text \<open>A fragment of markup: it starts with \<open><\<close> and ends with \<open>>\<close>.\<close>

definition markupFragment :: "string \<Rightarrow> bool" where
  "markupFragment y \<longleftrightarrow> y \<noteq> [] \<and> hd y = CHR ''<'' \<and> last y = CHR ''>''"











section \<open>Facts about the string primitives\<close>

lemma strIndex_Some_iff:
  assumes "p \<noteq> []"
  shows "strIndex s p = Some i \<longleftrightarrow>
         prefix p (drop i s) \<and> (\<forall>j<i. \<not> prefix p (drop j s))"
  using assms
proof (induction s arbitrary: i)
  case Nil
  then show ?case by auto
next
  case (Cons c cs)
  show ?case
  proof (cases "prefix p (c # cs)")
    case True
    then show ?thesis by (cases i) auto
  next
    case False
    show ?thesis
    proof (cases i)
      case 0
      with False show ?thesis by simp
    next
      case (Suc k)
      have "(\<forall>j<Suc k. \<not> prefix p (drop j (c # cs))) \<longleftrightarrow> (\<forall>j<k. \<not> prefix p (drop j cs))"
        using False by (auto simp: less_Suc_eq_0_disj)
      with Suc False Cons.IH [OF Cons.prems, of k] show ?thesis by auto
    qed
  qed
qed

lemma strIndex_None_iff:
  assumes "p \<noteq> []"
  shows "strIndex s p = None \<longleftrightarrow> (\<forall>j. \<not> prefix p (drop j s))"
  using assms
proof (induction s)
  case Nil
  then show ?case by auto
next
  case (Cons c cs)
  have "(\<forall>j. \<not> prefix p (drop j (c # cs))) \<longleftrightarrow>
        \<not> prefix p (c # cs) \<and> (\<forall>j. \<not> prefix p (drop j cs))"
  proof
    assume a: "\<forall>j. \<not> prefix p (drop j (c # cs))"
    have "\<not> prefix p (drop 0 (c # cs))" using a by blast
    moreover have "\<not> prefix p (drop j cs)" for j using a [rule_format, of "Suc j"] by simp
    ultimately show "\<not> prefix p (c # cs) \<and> (\<forall>j. \<not> prefix p (drop j cs))" by simp
  next
    assume a: "\<not> prefix p (c # cs) \<and> (\<forall>j. \<not> prefix p (drop j cs))"
    show "\<forall>j. \<not> prefix p (drop j (c # cs))"
    proof
      fix j show "\<not> prefix p (drop j (c # cs))" using a by (cases j) auto
    qed
  qed
  with Cons show ?case by auto
qed

lemma prefix_drop_take_cong:
  assumes "take (i + length p) s' = take (i + length p) s"
  shows "prefix p (drop i s') \<longleftrightarrow> prefix p (drop i s)"
proof -
  have "take (length p) (drop i s') = take (length p) (drop i s)"
    using assms by (metis add.commute drop_take add_diff_cancel_left' )
  then show ?thesis
    by (metis prefix_def append_take_drop_id append_eq_conv_conj take_is_prefix)
qed

lemma openIdx_Some_iff:
  "openIdx r tag = Some i \<longleftrightarrow> openAt tag r i \<and> (\<forall>j<i. \<not> openAt tag r j)"
proof -
  let ?e = "''<'' @ tag @ ''>''" and ?a = "''<'' @ tag @ '' ''"
  have ne: "?e \<noteq> []" "?a \<noteq> []" by simp_all
  note S = strIndex_Some_iff [OF ne(1)] strIndex_Some_iff [OF ne(2)]
  note N = strIndex_None_iff [OF ne(1)] strIndex_None_iff [OF ne(2)]
  show ?thesis
  proof (cases "strIndex r ?e")
    case None
    note eN = this
    show ?thesis
    proof (cases "strIndex r ?a")
      case None
      with eN have "openIdx r tag = None" by (simp add: openIdx_def)
      moreover have "\<not> openAt tag r i"
        using None eN N(1) [of r] N(2) [of r] unfolding openAt_def by blast
      ultimately show ?thesis by simp
    next
      case (Some ia)
      with eN have "openIdx r tag = Some ia" by (simp add: openIdx_def)
      moreover have "openAt tag r i \<and> (\<forall>j<i. \<not> openAt tag r j) \<longleftrightarrow> i = ia"
        using Some eN S(2) [of r ia] N(1) [of r] unfolding openAt_def
        by (metis linorder_neqE_nat)
      ultimately show ?thesis by auto
    qed
  next
    case (Some ie)
    note eS = this
    show ?thesis
    proof (cases "strIndex r ?a")
      case None
      with eS have "openIdx r tag = Some ie" by (simp add: openIdx_def)
      moreover have "openAt tag r i \<and> (\<forall>j<i. \<not> openAt tag r j) \<longleftrightarrow> i = ie"
        using None eS S(1) [of r ie] N(2) [of r] unfolding openAt_def
        by (metis linorder_neqE_nat)
      ultimately show ?thesis by auto
    next
      case (Some ia)
      with eS have "openIdx r tag = Some (min ie ia)" by (simp add: openIdx_def min_def)
      moreover have "openAt tag r i \<and> (\<forall>j<i. \<not> openAt tag r j) \<longleftrightarrow> i = min ie ia"
      proof
        assume h: "openAt tag r i \<and> (\<forall>j<i. \<not> openAt tag r j)"
        have "\<not> min ie ia < i"
          using h eS Some S(1) [of r ie] S(2) [of r ia] unfolding openAt_def min_def by metis
        moreover have "\<not> i < min ie ia"
          using h eS Some S(1) [of r ie] S(2) [of r ia] unfolding openAt_def by auto
        ultimately show "i = min ie ia" by simp
      next
        assume "i = min ie ia"
        then show "openAt tag r i \<and> (\<forall>j<i. \<not> openAt tag r j)"
          using eS Some S(1) [of r ie] S(2) [of r ia] unfolding openAt_def min_def
          by (auto split: if_splits)
      qed
      ultimately show ?thesis by auto
    qed
  qed
qed

lemma openIdx_None_iff: "openIdx r tag = None \<longleftrightarrow> (\<forall>j. \<not> openAt tag r j)"
proof -
  let ?e = "''<'' @ tag @ ''>''" and ?a = "''<'' @ tag @ '' ''"
  have ne: "?e \<noteq> []" "?a \<noteq> []" by simp_all
  have "openIdx r tag = None \<longleftrightarrow> strIndex r ?e = None \<and> strIndex r ?a = None"
    by (auto simp: openIdx_def split: option.splits)
  then show ?thesis
    unfolding strIndex_None_iff [OF ne(1)] strIndex_None_iff [OF ne(2)] openAt_def by blast
qed

lemma findLoop_blockSpans:
  "findLoop tag n count r off =
     (if int count < n \<and> n \<le> int (count + length (blockSpans tag r))
      then Inr (shiftSpan off (blockSpans tag r ! (nat (n - int count) - 1)))
      else if trailingOpen tag r then Inl (UnclosedTag tag)
      else Inl (OnlyFound (count + length (blockSpans tag r)) tag))"
proof (induction tag n count r off rule: findLoop.induct)
  case (1 tag n count remaining offset)
  let ?c = "''</'' @ tag @ ''>''"
  show ?case
  proof (cases "openIdx remaining tag")
    case None
    then show ?thesis
      by (simp add: findLoop.simps [of tag n count remaining] blockSpans.simps [of tag remaining]
          trailingOpen.simps [of tag remaining])
  next
    case (Some idx)
    note o = this
    show ?thesis
    proof (cases "strIndex (drop idx remaining) ?c")
      case None
      with o show ?thesis
        by (simp add: findLoop.simps [of tag n count remaining] blockSpans.simps [of tag remaining]
            trailingOpen.simps [of tag remaining])
    next
      case (Some ci)
      let ?adv = "idx + ci + length ?c"
      let ?bs' = "blockSpans tag (drop ?adv remaining)"
      have bs: "blockSpans tag remaining = (idx, ?adv) # map (shiftSpan ?adv) ?bs'"
        using o Some by (simp add: blockSpans.simps [of tag remaining])
      have tr: "trailingOpen tag remaining = trailingOpen tag (drop ?adv remaining)"
        using o Some by (simp add: trailingOpen.simps [of tag remaining])
      show ?thesis
      proof (cases "int (count + 1) = n")
        case True
        then have "findLoop tag n count remaining offset = Inr (offset + idx, offset + ?adv)"
          using o Some by (simp add: findLoop.simps [of tag n count remaining] add.assoc)
        moreover have "nat (n - int count) - 1 = 0" using True by auto
        ultimately show ?thesis using True bs by (auto simp: shiftSpan_def)
      next
        case False
        have fl: "findLoop tag n count remaining offset =
              findLoop tag n (count + 1) (drop ?adv remaining) (offset + ?adv)"
          using o Some False by (simp add: findLoop.simps [of tag n count remaining])
        note IH = "1.IH" [OF o Some False]
        show ?thesis
        proof (cases "int count < n \<and> n \<le> int (count + length (blockSpans tag remaining))")
          case True
          with False have rng: "int (count + 1) < n \<and> n \<le> int (count + 1 + length ?bs')"
            using bs by auto
          define k where "k = nat (n - int count - 2)"
          have n: "n = int count + 2 + int k" using rng by (simp add: k_def)
          have k: "nat (n - int count) - 1 = Suc k" "nat (n - int (count + 1)) - 1 = k"
            "k < length ?bs'"
            using rng by (simp_all add: n)
          show ?thesis
            using True rng k fl IH bs by (auto simp: shiftSpan_def add.assoc)
        next
          case False2: False
          with False have "\<not> (int (count + 1) < n \<and> n \<le> int (count + 1 + length ?bs'))"
            using bs by auto
          then show ?thesis using False2 fl IH bs tr by (auto simp: add.assoc)
        qed
      qed
    qed
  qed
qed

lemma prefix_drop_length: "prefix p (drop i s) \<Longrightarrow> p \<noteq> [] \<Longrightarrow> i + length p \<le> length s"
  by (metis add_diff_cancel_left' drop_all le_add1 le_diff_iff length_drop
    nat_le_linear prefix_bot.extremum_unique prefix_length_le)

lemma prefix_take_iff: "prefix p (take n s) \<longleftrightarrow> prefix p s \<and> length p \<le> n"
proof
  assume a: "prefix p (take n s)"
  then have "prefix p s" using take_is_prefix prefix_order.trans by blast
  moreover have "length p \<le> n" using a prefix_length_le by fastforce
  ultimately show "prefix p s \<and> length p \<le> n" by simp
next
  assume a: "prefix p s \<and> length p \<le> n"
  then obtain zs where "s = p @ zs" by (auto simp: prefix_def)
  then show "prefix p (take n s)" using a by simp
qed

lemma strIndex_bound:
  assumes "strIndex s p = Some i" "p \<noteq> []"
  shows "i + length p \<le> length s"
  using assms strIndex_Some_iff [OF assms(2)] prefix_drop_length by blast

lemma blockSpans_step:
  assumes "openIdx r tag = Some idx"
    and "strIndex (drop idx r) (''</'' @ tag @ ''>'') = Some ci"
  shows "blockSpans tag r =
           (idx, idx + ci + length (''</'' @ tag @ ''>'')) #
           map (shiftSpan (idx + ci + length (''</'' @ tag @ ''>'')))
             (blockSpans tag (drop (idx + ci + length (''</'' @ tag @ ''>'')) r))"
  using assms by (simp add: blockSpans.simps [of tag r])

lemma blockSpans_Nil_iff:
  "blockSpans tag r = [] \<longleftrightarrow>
     (case openIdx r tag of None \<Rightarrow> True
      | Some idx \<Rightarrow> strIndex (drop idx r) (''</'' @ tag @ ''>'') = None)"
  by (simp add: blockSpans.simps [of tag r] split: option.splits)

lemma blockAfter_first:
  assumes o: "openIdx r tag = Some idx"
    and c: "strIndex (drop idx r) (''</'' @ tag @ ''>'') = Some ci"
  shows "blockAfter tag r 0 (idx, idx + ci + length (''</'' @ tag @ ''>''))"
proof -
  have "ci + length (''</'' @ tag @ ''>'') \<le> length (drop idx r)"
    using strIndex_bound [OF c] by simp
  moreover have "idx \<le> length r"
    using o openIdx_Some_iff [of r tag idx] unfolding openAt_def
    by (metis drop_all nat_le_linear prefix_Nil append_is_Nil_conv not_Cons_self2)
  ultimately show ?thesis using o c by (simp add: blockAfter_def)
qed

lemma blockAfter_shift:
  assumes "blockAfter tag (drop k r) p sp" "k \<le> length r"
  shows "blockAfter tag r (k + p) (shiftSpan k sp)"
  using assms by (auto simp: blockAfter_def shiftSpan_def add.commute)

lemma blockSpans_nth:
  assumes "i < length (blockSpans tag r)"
  shows "blockAfter tag r (if i = 0 then 0 else snd (blockSpans tag r ! (i - 1)))
           (blockSpans tag r ! i)"
  using assms
proof (induction tag r arbitrary: i rule: blockSpans.induct)
  case (1 tag r)
  let ?c = "''</'' @ tag @ ''>''"
  from "1.prems" obtain idx where o: "openIdx r tag = Some idx"
    by (cases "openIdx r tag") (auto simp: blockSpans.simps [of tag r])
  from "1.prems" o obtain ci where c: "strIndex (drop idx r) ?c = Some ci"
    by (cases "strIndex (drop idx r) ?c") (auto simp: blockSpans.simps [of tag r])
  let ?adv = "idx + ci + length ?c"
  let ?bs' = "blockSpans tag (drop ?adv r)"
  note bs = blockSpans_step [OF o c]
  have fst: "blockAfter tag r 0 (idx, ?adv)" by (rule blockAfter_first [OF o c])
  then have advle: "?adv \<le> length r" by (simp add: blockAfter_def)
  show ?case
  proof (cases i)
    case 0
    then show ?thesis using bs fst by simp
  next
    case (Suc k)
    then have k: "k < length ?bs'" using "1.prems" bs by simp
    note IH = "1.IH" [OF o c k]
    have "blockAfter tag r (?adv + (if k = 0 then 0 else snd (?bs' ! (k - 1)))) (shiftSpan ?adv (?bs' ! k))"
      by (rule blockAfter_shift [OF IH advle])
    moreover have "blockSpans tag r ! i = shiftSpan ?adv (?bs' ! k)"
      using bs Suc k by simp
    moreover have "(if i = 0 then 0 else snd (blockSpans tag r ! (i - 1))) =
        ?adv + (if k = 0 then 0 else snd (?bs' ! (k - 1)))"
      using bs Suc k by (cases k) (auto simp: shiftSpan_def)
    ultimately show ?thesis by simp
  qed
qed

lemma blockAfter_goodSpan:
  assumes "blockAfter tag r p sp"
  shows "goodSpan tag r sp"
proof -
  define cl where "cl = ''</'' @ tag @ ''>''"
  have ne: "cl \<noteq> []" and len: "length cl = length tag + 3" by (simp_all add: cl_def)
  obtain s e where sp: "sp = (s, e)" by (cases sp)
  from assms sp have ps: "p \<le> s" and o: "openIdx (drop p r) tag = Some (s - p)"
    and c: "strIndex (drop s r) cl = Some (e - s - length cl)"
    and se: "s + length cl \<le> e" and el: "e \<le> length r"
    by (simp_all add: blockAfter_def cl_def)
  have oa: "openAt tag r s"
    using o ps openIdx_Some_iff [of "drop p r" tag "s - p"] by (simp add: openAt_def)
  have "prefix cl (drop (e - s - length cl) (drop s r))"
    using c strIndex_Some_iff [OF ne, of "drop s r" "e - s - length cl"] by blast
  moreover have "e - s - length cl + s = e - length cl" using se by simp
  ultimately have pc: "prefix cl (drop (e - length cl) r)" by simp
  have "prefix (''<'' @ tag @ ''>'') (slice r s e) \<or> prefix (''<'' @ tag @ '' '') (slice r s e)"
    using oa se len unfolding openAt_def slice_def prefix_take_iff by auto
  moreover have "suffix cl (slice r s e)"
  proof -
    have "take (length cl) (drop (e - length cl) r) = cl"
      using pc by (metis append_eq_conv_conj prefix_def)
    moreover have "slice r s e = take (e - length cl - s) (drop s r) @ take (length cl) (drop (e - length cl) r)"
    proof -
      have "e - s = (e - length cl - s) + length cl" using se by simp
      moreover have "drop (e - length cl - s) (drop s r) = drop (e - length cl) r" using se by simp
      ultimately show ?thesis unfolding slice_def by (metis take_add)
    qed
    ultimately show ?thesis by (metis suffixI)
  qed
  ultimately show ?thesis using se el sp by (simp add: goodSpan_def cl_def)
qed

lemma findNthXMLBlock_blockSpans:
  "findNthXMLBlock c tag n =
     (if 1 \<le> n \<and> n \<le> int (length (blockSpans tag c))
      then Inr (blockSpans tag c ! (nat n - 1))
      else if trailingOpen tag c then Inl (UnclosedTag tag)
      else Inl (OnlyFound (length (blockSpans tag c)) tag))"
  unfolding findNthXMLBlock_def findLoop_blockSpans by (auto simp: shiftSpan_def)

lemma findNthXMLBlock_Inr_iff:
  "findNthXMLBlock c tag n = Inr sp \<longleftrightarrow>
     1 \<le> n \<and> n \<le> int (length (blockSpans tag c)) \<and> sp = blockSpans tag c ! (nat n - 1)"
  unfolding findNthXMLBlock_blockSpans by auto

lemma prevBlockEnd_blockSpans:
  assumes "1 \<le> n" "n \<le> int (length (blockSpans tag c))"
  shows "prevBlockEnd c tag n =
     (if nat n - 1 = 0 then 0 else snd (blockSpans tag c ! (nat n - 1 - 1)))"
proof (cases "n = 1")
  case True
  then show ?thesis by (simp add: prevBlockEnd_def)
next
  case False
  with assms have "1 \<le> n - 1" "n - 1 \<le> int (length (blockSpans tag c))" by auto
  then have "findNthXMLBlock c tag (n - 1) = Inr (blockSpans tag c ! (nat (n - 1) - 1))"
    by (simp add: findNthXMLBlock_blockSpans)
  moreover have "nat (n - 1) - 1 = nat n - 1 - 1" by simp
  ultimately show ?thesis using False assms
    by (auto simp: prevBlockEnd_def split: prod.splits)
qed

lemma findNthXMLBlock_Inr_blockAfter:
  assumes "findNthXMLBlock c tag n = Inr sp"
  shows "blockAfter tag c (prevBlockEnd c tag n) sp"
proof -
  from assms have n: "1 \<le> n" "n \<le> int (length (blockSpans tag c))"
    and sp: "sp = blockSpans tag c ! (nat n - 1)"
    by (simp_all add: findNthXMLBlock_Inr_iff)
  have "nat n - 1 < length (blockSpans tag c)" using n by auto
  from blockSpans_nth [OF this] show ?thesis
    unfolding prevBlockEnd_blockSpans [OF n] sp by simp
qed

lemma findNthXMLBlock_Inr_goodSpan:
  "findNthXMLBlock c tag n = Inr sp \<Longrightarrow> goodSpan tag c sp"
  using findNthXMLBlock_Inr_blockAfter blockAfter_goodSpan by blast

declare findAllIds.simps [simp del] findAllTagIds.simps [simp del]

lemma isDigit_of_char: "isDigit c \<Longrightarrow> 48 \<le> int (of_char c)"
  by (auto simp: isDigit_def)

lemma decimalValue_foldl_nonneg:
  "\<forall>c\<in>set ds. isDigit c \<Longrightarrow> 0 \<le> acc \<Longrightarrow>
     0 \<le> foldl (\<lambda>acc c. 10 * acc + (int (of_char c) - 48)) acc ds"
proof (induction ds arbitrary: acc)
  case Nil
  then show ?case by simp
next
  case (Cons c cs)
  have "0 \<le> 10 * acc + (int (of_char c) - 48)"
    using Cons.prems isDigit_of_char [of c] by simp
  then show ?case using Cons by simp
qed

lemma decimalValue_nonneg: "\<forall>c\<in>set ds. isDigit c \<Longrightarrow> 0 \<le> decimalValue ds"
  unfolding decimalValue_def by (rule decimalValue_foldl_nonneg) simp_all

lemma matchIdAt_digits: "matchIdAt s = Some (ds, len) \<Longrightarrow> \<forall>c\<in>set ds. isDigit c"
  by (auto simp: matchIdAt_def Let_def split: if_splits dest: set_takeWhileD)

lemma greedyId_digits: "greedyId rest j = Some (ds, e) \<Longrightarrow> \<forall>c\<in>set ds. isDigit c"
proof (induction j)
  case 0
  then show ?case using matchIdAt_digits by simp
next
  case (Suc j)
  then show ?case
    by (cases "matchIdAt (drop (Suc j) rest)") (auto dest: matchIdAt_digits)
qed

lemma findAllIds_digits: "ds \<in> set (findAllIds s) \<Longrightarrow> \<forall>c\<in>set ds. isDigit c"
proof (induction s rule: findAllIds.induct)
  case (1 s)
  show ?case
  proof (cases "s = []")
    case True
    with "1.prems" show ?thesis by (simp add: findAllIds.simps [of "[]"])
  next
    case False
    show ?thesis
    proof (cases "matchIdAt s")
      case None
      with False "1.prems" have "ds \<in> set (findAllIds (tl s))"
        by (simp add: findAllIds.simps [of s])
      then show ?thesis by (rule "1.IH"(1) [OF False None])
    next
      case (Some a)
      obtain d len where a: "a = (d, len)" by (cases a)
      with Some False "1.prems" have "ds = d \<or> ds \<in> set (findAllIds (drop len s))"
        by (simp add: findAllIds.simps [of s])
      then show ?thesis
        using matchIdAt_digits [of s d len] "1.IH"(2) [OF False Some a [symmetric]] Some a
        by auto
    qed
  qed
qed

lemma findAllTagIds_digits:
  "ds \<in> set (findAllTagIds kind s) \<Longrightarrow> \<forall>c\<in>set ds. isDigit c"
proof (induction kind s rule: findAllTagIds.induct)
  case (1 kind s)
  let ?rest = "drop (3 + length kind) s"
  let ?g = "greedyId ?rest (length (takeWhile (\<lambda>c. c \<noteq> CHR ''>'') ?rest))"
  show ?case
  proof (cases "s = []")
    case True
    with "1.prems" show ?thesis by (simp add: findAllTagIds.simps [of kind "[]"])
  next
    case False
    show ?thesis
    proof (cases "prefix (''<w:'' @ kind) s")
      case False2: False
      with False "1.prems" have "ds \<in> set (findAllTagIds kind (tl s))"
        by (simp add: findAllTagIds.simps [of kind s])
      then show ?thesis by (rule "1.IH"(3) [OF False False2])
    next
      case True
      show ?thesis
      proof (cases ?g)
        case None
        with True False "1.prems" have "ds \<in> set (findAllTagIds kind (tl s))"
          by (simp add: findAllTagIds.simps [of kind s] Let_def)
        then show ?thesis by (rule "1.IH"(1) [OF False True refl None])
      next
        case (Some a)
        obtain d e where a: "a = (d, e)" by (cases a)
        with Some True False "1.prems"
        have "ds = d \<or> ds \<in> set (findAllTagIds kind (drop (3 + length kind + e) s))"
          by (simp add: findAllTagIds.simps [of kind s] Let_def)
        then show ?thesis
          using greedyId_digits [of ?rest _ d e]
            "1.IH"(2) [OF False True refl Some a [symmetric]] Some a by auto
      qed
    qed
  qed
qed

lemma foldl_maxStep:
  assumes "\<forall>ds\<in>set ms. decimalValue ds \<le> 2 ^ 63 - 1"
  shows "foldl maxStep m ms = Max (insert m (decimalValue ` set ms))"
  using assms
proof (induction ms arbitrary: m)
  case Nil
  then show ?case by simp
next
  case (Cons d ms)
  have st: "maxStep m d = max m (decimalValue d)"
    using Cons.prems by (auto simp: maxStep_def atoi_def)
  have "foldl maxStep m (d # ms) = Max (insert (max m (decimalValue d)) (decimalValue ` set ms))"
    using Cons st by simp
  also have "\<dots> = Max (insert m (decimalValue ` set (d # ms)))"
  proof (cases "ms = []")
    case True
    then show ?thesis by simp
  next
    case False
    then show ?thesis by (simp add: max.assoc)
  qed
  finally show ?case .
qed

lemma wrapInt64_id: "- (2 ^ 63) \<le> x \<Longrightarrow> x < 2 ^ 63 \<Longrightarrow> wrapInt64 x = x"
  by (simp add: wrapInt64_def)

lemma next_id_fold:
  assumes dig: "\<forall>ds\<in>set ms. \<forall>c\<in>set ds. isDigit c"
    and rng: "\<forall>ds\<in>set ms. decimalValue ds < 2 ^ 63 - 1"
  shows "wrapInt64 (foldl maxStep 0 ms + 1) =
           (if ms = [] then 1 else Max (decimalValue ` set ms) + 1)"
    and "\<forall>ds\<in>set ms. decimalValue ds < wrapInt64 (foldl maxStep 0 ms + 1)"
proof -
  let ?V = "decimalValue ` set ms"
  have f: "foldl maxStep 0 ms = Max (insert 0 ?V)"
    by (rule foldl_maxStep) (use rng in auto)
  have nn: "\<forall>v\<in>?V. 0 \<le> v" using dig decimalValue_nonneg by auto
  have lt: "\<forall>v\<in>?V. v < 2 ^ 63 - 1" using rng by auto
  have b: "0 \<le> Max (insert 0 ?V)" "Max (insert 0 ?V) < 2 ^ 63 - 1"
    using lt by (auto simp: Max_less_iff)
  have w: "wrapInt64 (foldl maxStep 0 ms + 1) = Max (insert 0 ?V) + 1"
    unfolding f using b by (intro wrapInt64_id) auto
  show "wrapInt64 (foldl maxStep 0 ms + 1) = (if ms = [] then 1 else Max ?V + 1)"
  proof (cases "ms = []")
    case True
    then show ?thesis using w by simp
  next
    case False
    then have "Max (insert 0 ?V) = max 0 (Max ?V)" by simp
    moreover have "0 \<le> Max ?V"
    proof -
      obtain d where "d \<in> set ms" using False by (cases ms) auto
      then have "decimalValue d \<in> ?V" by simp
      then have "decimalValue d \<le> Max ?V" by (intro Max_ge) auto
      moreover have "0 \<le> decimalValue d" using nn \<open>decimalValue d \<in> ?V\<close> by blast
      ultimately show ?thesis by linarith
    qed
    ultimately show ?thesis using w False by simp
  qed
  show "\<forall>ds\<in>set ms. decimalValue ds < wrapInt64 (foldl maxStep 0 ms + 1)"
  proof
    fix ds assume "ds \<in> set ms"
    then have "decimalValue ds \<le> Max (insert 0 ?V)" by (intro Max_ge) auto
    then show "decimalValue ds < wrapInt64 (foldl maxStep 0 ms + 1)" using w by simp
  qed
qed

declare vmergeLoop.simps [simp del] natStr.simps [simp del] countMatches.simps [simp del]
  findAllTables.simps [simp del]

lemma strLastIndex_None_iff:
  assumes "p \<noteq> []"
  shows "strLastIndex s p = None \<longleftrightarrow> (\<forall>j. \<not> prefix p (drop j s))"
  using assms
proof (induction s)
  case Nil
  then show ?case by auto
next
  case (Cons c cs)
  have "(\<forall>j. \<not> prefix p (drop j (c # cs))) \<longleftrightarrow>
        \<not> prefix p (c # cs) \<and> (\<forall>j. \<not> prefix p (drop j cs))"
  proof
    assume a: "\<forall>j. \<not> prefix p (drop j (c # cs))"
    have "\<not> prefix p (drop 0 (c # cs))" using a by blast
    moreover have "\<not> prefix p (drop j cs)" for j using a [rule_format, of "Suc j"] by simp
    ultimately show "\<not> prefix p (c # cs) \<and> (\<forall>j. \<not> prefix p (drop j cs))" by simp
  next
    assume a: "\<not> prefix p (c # cs) \<and> (\<forall>j. \<not> prefix p (drop j cs))"
    show "\<forall>j. \<not> prefix p (drop j (c # cs))"
    proof
      fix j show "\<not> prefix p (drop j (c # cs))" using a by (cases j) auto
    qed
  qed
  with Cons show ?case by (auto split: option.splits)
qed

lemma strLastIndex_Some_iff:
  assumes "p \<noteq> []"
  shows "strLastIndex s p = Some i \<longleftrightarrow>
         prefix p (drop i s) \<and> (\<forall>j>i. \<not> prefix p (drop j s))"
  using assms
proof (induction s arbitrary: i)
  case Nil
  then show ?case by auto
next
  case (Cons c cs)
  show ?case
  proof (cases "strLastIndex cs p")
    case None
    then have no: "\<forall>j. \<not> prefix p (drop j cs)"
      using strLastIndex_None_iff [OF Cons.prems] by blast
    show ?thesis
    proof (cases i)
      case 0
      have "(\<forall>j>0. \<not> prefix p (drop j (c # cs)))"
      proof (intro allI impI)
        fix j :: nat assume "0 < j"
        then obtain k where "j = Suc k" by (cases j) auto
        then show "\<not> prefix p (drop j (c # cs))" using no by simp
      qed
      then show ?thesis using None 0 by auto
    next
      case (Suc k)
      then show ?thesis using None no by auto
    qed
  next
    case (Some m)
    then have m: "prefix p (drop m cs)" "\<forall>j>m. \<not> prefix p (drop j cs)"
      using Cons.IH [OF Cons.prems, of m] by auto
    have r: "strLastIndex (c # cs) p = Some (Suc m)" using Some by simp
    show ?thesis
    proof
      assume "strLastIndex (c # cs) p = Some i"
      then have i: "i = Suc m" using r by simp
      have "\<forall>j>Suc m. \<not> prefix p (drop j (c # cs))"
      proof (intro allI impI)
        fix j assume "Suc m < j"
        then obtain k where "j = Suc k" "m < k" by (cases j) auto
        then show "\<not> prefix p (drop j (c # cs))" using m by simp
      qed
      then show "prefix p (drop i (c # cs)) \<and> (\<forall>j>i. \<not> prefix p (drop j (c # cs)))"
        using i m by simp
    next
      assume a: "prefix p (drop i (c # cs)) \<and> (\<forall>j>i. \<not> prefix p (drop j (c # cs)))"
      have "\<not> i < Suc m" using a m(1) by (metis drop_Suc_Cons)
      moreover have "\<not> Suc m < i"
      proof
        assume "Suc m < i"
        then obtain k where "i = Suc k" "m < k" by (cases i) auto
        then show False using a m(2) by simp
      qed
      ultimately show "strLastIndex (c # cs) p = Some i" using r by simp
    qed
  qed
qed

lemma strContains_iff:
  "p \<noteq> [] \<Longrightarrow> strContains s p \<longleftrightarrow> (\<exists>j. prefix p (drop j s))"
  by (simp add: strContains_def strIndex_None_iff)

lemma prefix_drop_split: "prefix p (drop i s) \<Longrightarrow> drop i s = p @ drop (i + length p) s"
  by (metis append_eq_conv_conj prefix_def add.commute drop_drop)

lemma replaceFirst_Some:
  "strIndex s old = Some i \<Longrightarrow> old \<noteq> [] \<Longrightarrow>
     replaceFirst s old (new @ old) = take i s @ new @ drop i s"
  using prefix_drop_split [of old i s] strIndex_Some_iff [of old s i]
  by (simp add: replaceFirst_def)

lemma strContains_middle: "strContains (a @ p @ b) p"
proof (cases "p = []")
  case True
  then show ?thesis by (cases "a @ b") (auto simp: strContains_def)
next
  case False
  have "prefix p (drop (length a) (a @ p @ b))" by simp
  then show ?thesis using strContains_iff [OF False] by blast
qed

lemma strContains_newRelationship:
  "strContains (x @ newRelationship relID relType filename @ y) filename"
proof -
  have \<open>x @ newRelationship relID relType filename @ y =
        (x @ ''<Relationship Id="'' @ relID @
         ''" Type="http://schemas.openxmlformats.org/officeDocument/2006/relationships/'' @
         relType @ ''" Target="'') @ filename @ (''"/>'' @ y)\<close>
    unfolding newRelationship_def append_assoc by (rule refl)
  then show ?thesis using strContains_middle by metis
qed

lemma readFile_putFile: "readFile (putFile fs path bytes) path = Inr bytes"
  by (simp add: readFile_def putFile_def)

lemma writeFile_succeeds:
  "writeSucceeds d \<Longrightarrow>
     writeFile d path bytes =
       (None, \<lparr>parts = putFile (parts d) path bytes, pending = tl (pending d)\<rparr>)"
  by (auto simp: writeSucceeds_def writeFile_def split: list.splits writeOutcome.splits)

lemma writeFile_error_iff: "fst (writeFile d path bytes) = None \<longleftrightarrow> writeSucceeds d"
  by (auto simp: writeSucceeds_def writeFile_def split: list.splits writeOutcome.splits)

lemma writeFile_PathError:
  "fst (writeFile d path bytes) = Some e \<Longrightarrow> \<exists>op. e = PathError op path"
  by (auto simp: writeFile_def split: list.splits writeOutcome.splits)

lemma addNoteRelationship_present:
  assumes "readFile (parts d) (pathJoin (tempDir u) [''word'', ''_rels'', ''document.xml.rels'']) = Inr content"
    and "strContains content filename"
  shows "addNoteRelationship h u filename relType d = (None, d)"
  using assms by (simp add: addNoteRelationship_def Let_def)

lemma addNoteRelationship_absent:
  assumes "readFile (parts d) (pathJoin (tempDir u) [''word'', ''_rels'', ''document.xml.rels'']) = Inr content"
    and "\<not> strContains content filename"
    and "getNextRelIDFromFile h (parts d) (pathJoin (tempDir u) [''word'', ''_rels'', ''document.xml.rels'']) = Inr relID"
  shows "addNoteRelationship h u filename relType d =
    (case writeFile d (pathJoin (tempDir u) [''word'', ''_rels'', ''document.xml.rels''])
       (replaceFirst content ''</Relationships>''
          (newRelationship relID relType filename @ ''</Relationships>'')) of
       (Some err, d') \<Rightarrow> (Some (Wrapped ''write rels'' err), d')
     | (None, d') \<Rightarrow> (None, d'))"
  unfolding addNoteRelationship_def Let_def assms(1) sum.case if_not_P [OF assms(2)] assms(3)
  by (rule refl)



















lemma length_blockContents [simp]: "length (blockContents tag c) = length (blockSpans tag c)"
  by (simp add: blockContents_def)














text \<open>
  Markup never reaches the rendered text: a self-closing text element contributes nothing,
  a self-closing paragraph is a paragraph of its own, and elements whose names merely start
  like \<open>w:t\<close> or \<open>w:p\<close> are neither text nor paragraphs.
\<close>

lemma anchor_resolver_ignores_markup:
  \<open>paragraphPlainText
     ''<w:p><w:r><w:t xml:space="preserve"/></w:r><w:r><w:tab/><w:t>ab</w:t></w:r></w:p>'' = ''ab'' \<and>
   findParagraphRange
     ''<w:body><w:p w:rsidR="1"/><w:p><w:pPr/><w:r><w:t>ab</w:t></w:r></w:p></w:body>'' ''ab'' =
     Inr (26, 69) \<and>
   findParagraphRange
     ''<w:body><w:p w:rsidR="1"/><w:p><w:pPr/><w:r><w:t>ab</w:t></w:r></w:p></w:body>'' ''w:r'' =
     Inl (Msg ''anchor not found'')\<close>
  by code_simp

lemma writeFile_None_parts:
  "fst (writeFile d path bytes) = None \<Longrightarrow>
     parts (snd (writeFile d path bytes)) = putFile (parts d) path bytes"
  by (auto simp: writeFile_def split: list.splits writeOutcome.splits)

text \<open>The guard \<open>if u == nil\<close> opens each of these operations.\<close>

lemma nil_receiver_guards:
  "MergeTableCellsHorizontal None tableIndex row startCol endCol d =
     (Some (Msg ''updater is nil''), d) \<and>
   MergeTableCellsVertical None tableIndex startRow endRow col d =
     (Some (Msg ''updater is nil''), d) \<and>
   InsertTrackedText h None trackedOpts d = (Some (Msg ''updater is nil''), d) \<and>
   DeleteTable None tableIndex d = (Some (Msg ''updater is nil''), d) \<and>
   GetTableCount None d = Inl (Msg ''updater is nil'') \<and>
   InsertTOC h None tocOpts d = (Some (Msg ''updater is nil''), d) \<and>
   InsertFootnote h None fnOpts d = (Some (Msg ''updater is nil''), d) \<and>
   AddStyle h None def d = (Some (Msg ''updater is nil''), d)"
  by (simp add: MergeTableCellsHorizontal_def MergeTableCellsVertical_def InsertTrackedText_def
      DeleteTable_def GetTableCount_def InsertTOC_def InsertFootnote_def AddStyle_def)

lemma prefix_nth: "prefix p s \<Longrightarrow> k < length p \<Longrightarrow> s ! k = p ! k"
  by (auto simp: prefix_def nth_append)

lemma prefix_drop_nth:
  assumes "prefix p (drop j s)" "k < length p"
  shows "s ! (j + k) = p ! k"
proof -
  have "p \<noteq> []" using assms(2) by auto
  then have "j + length p \<le> length s" by (rule prefix_drop_length [OF assms(1)])
  then have "drop j s ! k = s ! (j + k)" using assms(2) by simp
  then show ?thesis using prefix_nth [OF assms] by simp
qed

lemma tagPattern_inner_no_lt:
  assumes "tagPattern p" "0 < k" "k < length p"
  shows "p ! k \<noteq> CHR ''<''"
proof -
  have "tl p ! (k - 1) = p ! k" using assms by (simp add: nth_tl)
  moreover have "k - 1 < length (tl p)" using assms by simp
  ultimately have "p ! k \<in> set (tl p)" by (metis nth_mem)
  then show ?thesis using assms(1) by (auto simp: tagPattern_def)
qed

lemma tagPattern_inner_no_gt:
  assumes "tagPattern p" "Suc k < length p"
  shows "p ! k \<noteq> CHR ''>''"
proof -
  have "butlast p ! k = p ! k" using assms by (simp add: nth_butlast)
  moreover have "k < length (butlast p)" using assms by simp
  ultimately have "p ! k \<in> set (butlast p)" by (metis nth_mem)
  then show ?thesis using assms(1) by (auto simp: tagPattern_def)
qed


lemma no_straddle_left:
  assumes tp: "tagPattern p" and y: "y \<noteq> []" "hd y = CHR ''<''"
    and occ: "prefix p (drop j (x @ y))" and j: "j < length x"
  shows "j + length p \<le> length x"
proof (rule ccontr)
  assume "\<not> j + length p \<le> length x"
  then have k: "0 < length x - j" "length x - j < length p" using j by auto
  have "(x @ y) ! (j + (length x - j)) = p ! (length x - j)"
    by (rule prefix_drop_nth [OF occ k(2)])
  moreover have "(x @ y) ! (j + (length x - j)) = y ! 0" using j by (simp add: nth_append)
  moreover have "y ! 0 = CHR ''<''" using y by (simp add: hd_conv_nth)
  ultimately show False using tagPattern_inner_no_lt [OF tp k] by simp
qed

lemma no_straddle_right:
  assumes tp: "tagPattern p" and x: "x \<noteq> []" "last x = CHR ''>''"
    and occ: "prefix p (drop j (x @ y))" and j: "j < length x"
  shows "j + length p \<le> length x"
proof (rule ccontr)
  assume "\<not> j + length p \<le> length x"
  then have k: "Suc (length x - 1 - j) < length p" using j by auto
  then have "(x @ y) ! (j + (length x - 1 - j)) = p ! (length x - 1 - j)"
    by (intro prefix_drop_nth [OF occ]) simp
  moreover have "j + (length x - 1 - j) = length x - 1" using j by simp
  moreover have "(x @ y) ! (length x - 1) = x ! (length x - 1)"
    using j by (auto simp: nth_append)
  moreover have "x ! (length x - 1) = CHR ''>''" using x by (simp add: last_conv_nth)
  ultimately show False using tagPattern_inner_no_gt [OF tp k] by simp
qed

lemma prefix_drop_append_left:
  assumes "prefix p (drop j (x @ y))" "j + length p \<le> length x"
  shows "prefix p (drop j x)"
proof -
  have "take (j + length p) (x @ y) = take (j + length p) x" using assms(2) by simp
  then show ?thesis using prefix_drop_take_cong assms(1) by blast
qed

lemma prefix_drop_append_right:
  assumes "prefix p (drop j (x @ y))" "length x \<le> j"
  shows "prefix p (drop (j - length x) y)"
  using assms by simp

lemma prefix_drop_take:
  assumes "prefix p (drop j (take n s))"
  shows "prefix p (drop j s)"
  using assms by (metis prefix_order.dual_order.trans drop_take take_is_prefix)

lemma edit_occurrence:
  assumes tp: "tagPattern P" and y: "markupFragment Y" and pq: "p \<le> q" "q \<le> length C"
    and occ: "prefix P (drop j (take p C @ Y @ drop q C))"
  shows "(j + length P \<le> p \<and> prefix P (drop j C)) \<or>
         (p \<le> j \<and> j + length P \<le> p + length Y \<and> prefix P (drop (j - p) Y)) \<or>
         (p + length Y \<le> j \<and> prefix P (drop (j - (p + length Y) + q) C))"
proof -
  have lp: "length (take p C) = p" using pq by simp
  have yne: "Y \<noteq> []" "hd Y = CHR ''<''" "last Y = CHR ''>''"
    using y by (simp_all add: markupFragment_def)
  consider "j < p" | "p \<le> j" "j < p + length Y" | "p + length Y \<le> j" by linarith
  then show ?thesis
  proof cases
    case 1
    have "j + length P \<le> length (take p C)"
    proof (rule no_straddle_left [OF tp _ _ occ])
      show "Y @ drop q C \<noteq> []" using yne by simp
      show "hd (Y @ drop q C) = CHR ''<''" using yne by simp
      show "j < length (take p C)" using 1 lp by simp
    qed
    then have le: "j + length P \<le> p" using lp by simp
    have "prefix P (drop j (take p C))"
      by (rule prefix_drop_append_left [OF occ]) (use le lp in simp)
    then have "prefix P (drop j C)" by (rule prefix_drop_take)
    then show ?thesis using le by blast
  next
    case 2
    have occ': "prefix P (drop j ((take p C @ Y) @ drop q C))" using occ by simp
    have "j + length P \<le> length (take p C @ Y)"
    proof (rule no_straddle_right [OF tp _ _ occ'])
      show "take p C @ Y \<noteq> []" using yne by simp
      show "last (take p C @ Y) = CHR ''>''" using yne by simp
      show "j < length (take p C @ Y)" using 2 lp by simp
    qed
    then have le: "j + length P \<le> p + length Y" using lp by simp
    have "prefix P (drop j (take p C @ Y))"
      by (rule prefix_drop_append_left [OF occ']) (use le lp in simp)
    then have "prefix P (drop (j - p) Y)" using 2 lp by simp
    then show ?thesis using 2 le by blast
  next
    case 3
    have "drop j (take p C @ Y @ drop q C) = drop (j - (p + length Y)) (drop q C)"
      using 3 lp by simp
    then have "prefix P (drop (j - (p + length Y) + q) C)" using occ by simp
    then show ?thesis using 3 by blast
  qed
qed

lemma markupFragment_length: "markupFragment Y \<Longrightarrow> 0 < length Y"
  by (simp add: markupFragment_def)

lemma tagPattern_nonempty: "tagPattern P \<Longrightarrow> P \<noteq> []"
  by (simp add: tagPattern_def)

lemma edit_no_occurrence:
  assumes tp: "tagPattern P" and y: "markupFragment Y" and pq: "p \<le> q" "q \<le> length C"
    and nC: "\<not> strContains C P" and nY: "\<not> strContains Y P"
  shows "\<not> strContains (take p C @ Y @ drop q C) P"
proof
  assume "strContains (take p C @ Y @ drop q C) P"
  then obtain j where "prefix P (drop j (take p C @ Y @ drop q C))"
    using strContains_iff [OF tagPattern_nonempty [OF tp]] by blast
  from edit_occurrence [OF tp y pq this]
  have "(\<exists>i. prefix P (drop i C)) \<or> (\<exists>i. prefix P (drop i Y))" by blast
  then show False
    using nC nY strContains_iff [OF tagPattern_nonempty [OF tp]] by blast
qed







































section \<open>Verified properties\<close>



text \<open>
  C2. Locating the n-th block and splicing the located bytes back into the located span
  gives back the original buffer.
\<close>

theorem locate_splice_roundtrip:
  "findNthXMLBlock content tag n = Inr (s, e) \<Longrightarrow>
     splice content s e (slice content s e) = content"
proof -
  assume "findNthXMLBlock content tag n = Inr (s, e)"
  then have "goodSpan tag content (s, e)" by (rule findNthXMLBlock_Inr_goodSpan)
  then have "s \<le> e" "e \<le> length content" by (simp_all add: goodSpan_def)
  then have "take s content @ take (e - s) (drop s content) = take e content"
    by (metis le_add_diff_inverse take_add)
  then have "(take s content @ take (e - s) (drop s content)) @ drop e content = content"
    by simp
  then show ?thesis by (simp add: splice_def slice_def)
qed

theorem locate_splice_roundtrip_witness:
  "findNthXMLBlock ''<a>x</a><a b>y</a>'' ''a'' 2 = Inr (8, 18) \<and>
   splice ''<a>x</a><a b>y</a>'' 8 18 (slice ''<a>x</a><a b>y</a>'' 8 18) = ''<a>x</a><a b>y</a>''"
proof -
  have r: "findNthXMLBlock ''<a>x</a><a b>y</a>'' ''a'' 2 = Inr (8, 18)" by code_simp
  show ?thesis using r locate_splice_roundtrip [OF r] by simp
qed

text \<open>
  C5 (as amended). The ids of a namespace in a buffer are the captures of the namespace's
  pattern. When each of them is below \<open>2^63 - 1\<close>, the next-id computation of the comment,
  footnote/endnote and revision namespaces returns 1 if there is none and the largest plus
  one otherwise, whatever gaps the ids have, and the id issued is strictly greater than
  every id present.
\<close>

theorem next_id_spec:
  "((\<forall>ds\<in>set (findAllTagIds ''comment'' raw). decimalValue ds < 2 ^ 63 - 1) \<longrightarrow>
      getNextCommentID raw =
        (if findAllTagIds ''comment'' raw = [] then 1
         else Max (decimalValue ` set (findAllTagIds ''comment'' raw)) + 1) \<and>
      (\<forall>ds\<in>set (findAllTagIds ''comment'' raw). decimalValue ds < getNextCommentID raw)) \<and>
   ((\<forall>ds\<in>set (findAllTagIds noteType raw). decimalValue ds < 2 ^ 63 - 1) \<longrightarrow>
      getNextNoteID raw noteType =
        (if findAllTagIds noteType raw = [] then 1
         else Max (decimalValue ` set (findAllTagIds noteType raw)) + 1) \<and>
      (\<forall>ds\<in>set (findAllTagIds noteType raw). decimalValue ds < getNextNoteID raw noteType)) \<and>
   ((\<forall>ds\<in>set (findAllIds raw). decimalValue ds < 2 ^ 63 - 1) \<longrightarrow>
      getNextRevisionID raw =
        (if findAllIds raw = [] then 1
         else Max (decimalValue ` set (findAllIds raw)) + 1) \<and>
      (\<forall>ds\<in>set (findAllIds raw). decimalValue ds < getNextRevisionID raw))"
proof -
  have t: "\<forall>ds\<in>set (findAllTagIds kind raw). \<forall>c\<in>set ds. isDigit c" for kind
    using findAllTagIds_digits by blast
  have r: "\<forall>ds\<in>set (findAllIds raw). \<forall>c\<in>set ds. isDigit c"
    using findAllIds_digits by blast
  show ?thesis
    unfolding getNextCommentID_def getNextNoteID_def getNextRevisionID_def
    using next_id_fold [OF t [of "''comment''"]] next_id_fold [OF t [of noteType]]
      next_id_fold [OF r]
    by blast
qed

theorem next_id_spec_witness:
  \<open>getNextCommentID ''<w:comments><w:comment w:id="1" w:author="A"/><w:comment w:id="3" w:author="B"/></w:comments>'' = 4 \<and>
   getNextNoteID ''<w:footnote w:type="separator" w:id="-1"></w:footnote><w:footnote w:id="2"></w:footnote><w:footnote w:id="7"></w:footnote>'' ''footnote'' = 8 \<and>
   getNextRevisionID ''<w:ins w:id="5"/><w:del w:id="3"/>'' = 6 \<and>
   getNextRevisionID ''<w:body><w:p/></w:body>'' = 1\<close>
proof -
  let ?c = \<open>''<w:comments><w:comment w:id="1" w:author="A"/><w:comment w:id="3" w:author="B"/></w:comments>''\<close>
  let ?n = \<open>''<w:footnote w:type="separator" w:id="-1"></w:footnote><w:footnote w:id="2"></w:footnote><w:footnote w:id="7"></w:footnote>''\<close>
  let ?r = \<open>''<w:ins w:id="5"/><w:del w:id="3"/>''\<close>
  let ?e = "''<w:body><w:p/></w:body>''"
  have c: "findAllTagIds ''comment'' ?c = [''1'', ''3'']" by code_simp
  have n: "findAllTagIds ''footnote'' ?n = [''2'', ''7'']" by code_simp
  have r: "findAllIds ?r = [''5'', ''3'']" by code_simp
  have e: "findAllIds ?e = []" by code_simp
  have v: "decimalValue ''1'' = 1" "decimalValue ''3'' = 3" "decimalValue ''2'' = 2"
    "decimalValue ''7'' = 7" "decimalValue ''5'' = 5"
    by (simp_all add: decimalValue_def)
  show ?thesis
    using next_id_spec [of ?c "''footnote''"] next_id_spec [of ?n "''footnote''"]
      next_id_spec [of ?r "''footnote''"] next_id_spec [of ?e "''footnote''"]
    by (simp add: c n r e v)
qed

text \<open>
  An id that does not fit an \<open>int\<close> is in the buffer and matches the pattern, but
  \<open>strconv.Atoi\<close> reports an error for it and the loop skips it: the allocator answers 1.
\<close>

theorem next_id_counterexample:
  \<open>findAllIds ''<w:ins w:id="9223372036854775808"/>'' = [''9223372036854775808''] \<and>
   decimalValue ''9223372036854775808'' = 9223372036854775808 \<and>
   getNextRevisionID ''<w:ins w:id="9223372036854775808"/>'' = 1\<close>
  by code_simp

text \<open>
  C6 (as amended). Let the relationships part be readable. When it mentions the file name
  already, \<open>addNoteRelationship\<close> returns nil and changes nothing. When it does not mention
  the file name, has a closing \<open></Relationships>\<close> tag, \<open>getNextRelIDFromFile\<close> returns an
  id and the write of the part succeeds, the first call returns nil and stores the part with
  one \<open>Relationship\<close> element for the file name inserted in front of the closing tag, and a
  second call with the same file name returns nil and leaves the disk as it is. The
  operation returns no relationship id, only an error or nil.
\<close>

theorem addNoteRelationship_twice:
  assumes "readFile (parts d) (pathJoin (tempDir u) [''word'', ''_rels'', ''document.xml.rels'']) =
             Inr content"
  shows "(strContains content filename \<longrightarrow>
            addNoteRelationship h u filename relType d = (None, d)) \<and>
         (\<not> strContains content filename \<and> strIndex content ''</Relationships>'' = Some i \<and>
          getNextRelIDFromFile h (parts d)
            (pathJoin (tempDir u) [''word'', ''_rels'', ''document.xml.rels'']) = Inr relID \<and>
          writeSucceeds d \<longrightarrow>
            fst (addNoteRelationship h u filename relType d) = None \<and>
            parts (snd (addNoteRelationship h u filename relType d)) =
              putFile (parts d) (pathJoin (tempDir u) [''word'', ''_rels'', ''document.xml.rels''])
                (take i content @ newRelationship relID relType filename @ drop i content) \<and>
            addNoteRelationship h u filename relType
              (snd (addNoteRelationship h u filename relType d)) =
              (None, snd (addNoteRelationship h u filename relType d)))"
proof (intro conjI impI)
  assume "strContains content filename"
  then show "addNoteRelationship h u filename relType d = (None, d)"
    by (rule addNoteRelationship_present [OF assms])
next
  let ?path = "pathJoin (tempDir u) [''word'', ''_rels'', ''document.xml.rels'']"
  let ?content' = "take i content @ newRelationship relID relType filename @ drop i content"
  let ?d1 = "\<lparr>parts = putFile (parts d) ?path ?content', pending = tl (pending d)\<rparr>"
  assume a: "\<not> strContains content filename \<and> strIndex content ''</Relationships>'' = Some i \<and>
          getNextRelIDFromFile h (parts d) ?path = Inr relID \<and> writeSucceeds d"
  then have nc: "\<not> strContains content filename"
    and ix: "strIndex content ''</Relationships>'' = Some i"
    and rid: "getNextRelIDFromFile h (parts d) ?path = Inr relID"
    and ws: "writeSucceeds d" by blast+
  have ne: "''</Relationships>'' \<noteq> []" by simp
  have first: "addNoteRelationship h u filename relType d = (None, ?d1)"
    unfolding addNoteRelationship_absent [OF assms nc rid] replaceFirst_Some [OF ix ne]
      writeFile_succeeds [OF ws] by simp
  have rd: "readFile (parts ?d1) ?path = Inr ?content'"
    by (simp add: readFile_putFile)
  have second: "addNoteRelationship h u filename relType ?d1 = (None, ?d1)"
    by (rule addNoteRelationship_present [OF rd strContains_newRelationship])
  show "fst (addNoteRelationship h u filename relType d) = None" unfolding first by simp
  show "parts (snd (addNoteRelationship h u filename relType d)) = putFile (parts d) ?path ?content'"
    unfolding first by simp
  show "addNoteRelationship h u filename relType
              (snd (addNoteRelationship h u filename relType d)) =
              (None, snd (addNoteRelationship h u filename relType d))"
    unfolding first snd_conv by (rule second)
qed

theorem addNoteRelationship_twice_witness:
  "fst (addNoteRelationship exampleHelpers exampleUpdater ''footnotes.xml'' ''footnotes''
     (okDisk (relsFiles relsWithStyles))) = None \<and>
   parts (snd (addNoteRelationship exampleHelpers exampleUpdater ''footnotes.xml'' ''footnotes''
     (okDisk (relsFiles relsWithStyles)))) =
     putFile (relsFiles relsWithStyles) ''/tmp/docx/word/_rels/document.xml.rels''
        (take 69 relsWithStyles @ newRelationship ''rId9'' ''footnotes'' ''footnotes.xml'' @
         drop 69 relsWithStyles) \<and>
   addNoteRelationship exampleHelpers exampleUpdater ''footnotes.xml'' ''footnotes''
     (snd (addNoteRelationship exampleHelpers exampleUpdater ''footnotes.xml'' ''footnotes''
        (okDisk (relsFiles relsWithStyles)))) =
     (None, snd (addNoteRelationship exampleHelpers exampleUpdater ''footnotes.xml'' ''footnotes''
        (okDisk (relsFiles relsWithStyles))))"
proof -
  let ?path = "''/tmp/docx/word/_rels/document.xml.rels''"
  let ?d = "okDisk (relsFiles relsWithStyles)"
  have p: "pathJoin (tempDir exampleUpdater) [''word'', ''_rels'', ''document.xml.rels''] = ?path"
    by (simp add: pathJoin_def exampleUpdater_def)
  have pd: "parts ?d = relsFiles relsWithStyles" by (simp add: okDisk_def)
  have r: "readFile (parts ?d)
             (pathJoin (tempDir exampleUpdater) [''word'', ''_rels'', ''document.xml.rels'']) =
           Inr relsWithStyles"
    unfolding p relsFiles_def okDisk_def by (simp add: readFile_putFile)
  have nc: "\<not> strContains relsWithStyles ''footnotes.xml''" by code_simp
  have ix: "strIndex relsWithStyles ''</Relationships>'' = Some 69" by code_simp
  have g: "getNextRelIDFromFile exampleHelpers (parts ?d)
             (pathJoin (tempDir exampleUpdater) [''word'', ''_rels'', ''document.xml.rels'']) =
           Inr ''rId9''"
    by (simp add: exampleHelpers_def)
  have ws: "writeSucceeds ?d" by (simp add: writeSucceeds_def okDisk_def)
  show ?thesis
    using addNoteRelationship_twice [OF r, of "''footnotes.xml''" exampleHelpers "''footnotes''"
        69 "''rId9''"] nc ix g ws
    unfolding p pd by blast
qed

text \<open>
  The guard of \<open>addNoteRelationship\<close> looks for the file name anywhere in the part. A part
  that targets \<open>oldfootnotes.xml\<close> mentions \<open>footnotes.xml\<close>: every call returns at the
  guard, and the part never gets an entry whose target is \<open>footnotes.xml\<close>.
\<close>

theorem addNoteRelationship_counterexample:
  \<open>addNoteRelationship exampleHelpers exampleUpdater ''footnotes.xml'' ''footnotes''
     (okDisk (relsFiles relsWithOldFootnotes)) = (None, okDisk (relsFiles relsWithOldFootnotes)) \<and>
   readFile (parts (okDisk (relsFiles relsWithOldFootnotes)))
     ''/tmp/docx/word/_rels/document.xml.rels'' = Inr relsWithOldFootnotes \<and>
   \<not> strContains relsWithOldFootnotes ''Target="footnotes.xml"''\<close>
proof -
  let ?path = "''/tmp/docx/word/_rels/document.xml.rels''"
  let ?d = "okDisk (relsFiles relsWithOldFootnotes)"
  have p: "pathJoin (tempDir exampleUpdater) [''word'', ''_rels'', ''document.xml.rels''] = ?path"
    by (simp add: pathJoin_def exampleUpdater_def)
  have r: "readFile (parts ?d) ?path = Inr relsWithOldFootnotes"
    unfolding relsFiles_def okDisk_def by (simp add: readFile_putFile)
  have c: "strContains relsWithOldFootnotes ''footnotes.xml''" by code_simp
  have n: \<open>\<not> strContains relsWithOldFootnotes ''Target="footnotes.xml"''\<close> by code_simp
  have "addNoteRelationship exampleHelpers exampleUpdater ''footnotes.xml'' ''footnotes'' ?d =
          (None, ?d)"
    by (rule addNoteRelationship_present [OF _ c]) (simp only: p r)
  then show ?thesis using r n by blast
qed



text \<open>
  C9 (as amended). The two merge operations compute the new content of the document part
  from the bytes read and write it once, after every step has succeeded. So an error that
  is not the error of that write leaves the disk as it was, as does every error when the
  write cannot fail; and a merge that returns nil has stored the complete new content.
\<close>

theorem merge_failure_leaves_parts:
  "(fst (MergeTableCellsVertical u tableIndex startRow endRow col d) = Some e \<and>
      (writeSucceeds d \<or> (\<forall>op path. e \<noteq> PathError op path)) \<longrightarrow>
      snd (MergeTableCellsVertical u tableIndex startRow endRow col d) = d) \<and>
   (fst (MergeTableCellsHorizontal u tableIndex row startCol endCol d) = Some e \<and>
      (writeSucceeds d \<or> (\<forall>op path. e \<noteq> PathError op path)) \<longrightarrow>
      snd (MergeTableCellsHorizontal u tableIndex row startCol endCol d) = d) \<and>
   (fst (MergeTableCellsVertical u tableIndex startRow endRow col d) = None \<longrightarrow>
      (\<exists>up raw updated. u = Some up \<and>
         readFile (parts d) (pathJoin (tempDir up) [''word'', ''document.xml'']) = Inr raw \<and>
         mergeTableCellsVertical raw tableIndex startRow endRow col = Inr updated \<and>
         parts (snd (MergeTableCellsVertical u tableIndex startRow endRow col d)) =
           putFile (parts d) (pathJoin (tempDir up) [''word'', ''document.xml'']) updated)) \<and>
   (fst (MergeTableCellsHorizontal u tableIndex row startCol endCol d) = None \<longrightarrow>
      (\<exists>up raw updated. u = Some up \<and>
         readFile (parts d) (pathJoin (tempDir up) [''word'', ''document.xml'']) = Inr raw \<and>
         mergeTableCellsHorizontal raw tableIndex row startCol endCol = Inr updated \<and>
         parts (snd (MergeTableCellsHorizontal u tableIndex row startCol endCol d)) =
           putFile (parts d) (pathJoin (tempDir up) [''word'', ''document.xml'']) updated))"
proof -
  have w: "fst (writeFile d path bytes) = Some e \<Longrightarrow>
           (writeSucceeds d \<or> (\<forall>op path. e \<noteq> PathError op path)) \<Longrightarrow> False" for path bytes
    using writeFile_error_iff [of d path bytes] writeFile_PathError [of d path bytes e] by auto
  show ?thesis
    unfolding MergeTableCellsVertical_def MergeTableCellsHorizontal_def Let_def
    by (auto split: option.splits sum.splits dest: w simp: writeFile_None_parts)
qed

theorem merge_failure_leaves_parts_witness:
  "fst (MergeTableCellsVertical (Some exampleUpdater) 1 1 3 1 (okDisk (docFiles twoRowTable))) =
     Some (Wrapped ''row 3 not found'' (OnlyFound 2 ''w:tr'')) \<and>
   snd (MergeTableCellsVertical (Some exampleUpdater) 1 1 3 1 (okDisk (docFiles twoRowTable))) =
     okDisk (docFiles twoRowTable)"
proof -
  have f: "fst (MergeTableCellsVertical (Some exampleUpdater) 1 1 3 1
                  (okDisk (docFiles twoRowTable))) =
     Some (Wrapped ''row 3 not found'' (OnlyFound 2 ''w:tr''))"
    by code_simp
  have ws: "writeSucceeds (okDisk (docFiles twoRowTable))"
    by (simp add: writeSucceeds_def okDisk_def)
  show ?thesis
    using merge_failure_leaves_parts [of "Some exampleUpdater" 1 1 3 1
        "okDisk (docFiles twoRowTable)" "Wrapped ''row 3 not found'' (OnlyFound 2 ''w:tr'')"]
      f ws
    by simp
qed

text \<open>
  An error result with changed bytes. \<open>InsertFootnote\<close> writes the new note into the
  notes part and then looks for the anchor in the document part: when the anchor is not
  there it returns the error and the note stays in the notes part. And when the write at
  the end of a merge fails, the merge returns the error of the write and the document part
  holds what was written before the failure, here nothing.
\<close>

theorem partial_failure_counterexample:
  "fst (InsertFootnote exampleHelpers (Some exampleUpdater)
          \<lparr>fnText = ''note'', fnAnchor = ''absent''\<rparr> (okDisk notesFiles)) =
     Some (Wrapped ''insert footnote reference''
            (Wrapped ''find anchor'' (Msg ''anchor not found''))) \<and>
   parts (okDisk notesFiles) ''/tmp/docx/word/footnotes.xml'' =
     Some ''<w:footnotes></w:footnotes>'' \<and>
   parts (snd (InsertFootnote exampleHelpers (Some exampleUpdater)
                 \<lparr>fnText = ''note'', fnAnchor = ''absent''\<rparr> (okDisk notesFiles)))
     ''/tmp/docx/word/footnotes.xml'' =
     Some (''<w:footnotes>'' @ generateFootnoteEntry exampleHelpers 1 ''note'' @ [CHR 0x0A] @
           ''</w:footnotes>'') \<and>
   fst (MergeTableCellsVertical (Some exampleUpdater) 1 1 2 1
          (faultyDisk (docFiles twoRowTable) (WriteFailsAfter 0))) =
     Some (PathError ''write'' ''/tmp/docx/word/document.xml'') \<and>
   parts (faultyDisk (docFiles twoRowTable) (WriteFailsAfter 0)) ''/tmp/docx/word/document.xml'' =
     Some twoRowTable \<and>
   parts (snd (MergeTableCellsVertical (Some exampleUpdater) 1 1 2 1
                 (faultyDisk (docFiles twoRowTable) (WriteFailsAfter 0))))
     ''/tmp/docx/word/document.xml'' = Some []"
  by code_simp

text \<open>
  C10. \<open>AddStyles\<close> is an exported operation without the guard: on a nil receiver and an
  empty list of definitions its loop does not run and it returns nil, no error. With a
  definition in the list it returns the error of \<open>AddStyle\<close>, which has the guard.
\<close>

theorem nil_updater_AddStyles:
  "AddStyles h None [] d = (None, d) \<and>
   AddStyles h None (def # defs) d =
     (Some (Wrapped (''add style 0 ('' @ sdID def @ '')'') (Msg ''updater is nil'')), d)"
proof -
  have i: "itoa (int 0) = ''0''" by code_simp
  show ?thesis by (simp add: AddStyles_def AddStyle_def i del: of_nat_0)
qed

text \<open>
  C7 (as amended). Planning an insertion at the End position: with \<open>bodyEnd\<close> the offset
  of the body's closing tag, the offset is \<open>bodyEnd\<close> when the bytes \<open><w:sectPr\<close> do not
  occur before it, and otherwise the offset of their last occurrence before it, which lies
  strictly before \<open>bodyEnd\<close>; the fragment is inserted at that offset. When the final
  section-properties block opens at \<open>q\<close> and \<open><w:sectPr\<close> does not occur again behind
  \<open>q\<close>, inside the block or after it, the offset is \<open>q\<close>, the start of that block.
\<close>

theorem toc_end_offset:
  assumes "Position opts = PositionEnd"
    and "strIndex docXML ''</w:body>'' = Some bodyEnd"
  shows "prefix ''</w:body>'' (drop bodyEnd docXML) \<and>
    (\<not> strContains (take bodyEnd docXML) ''<w:sectPr'' \<longrightarrow>
       tocInsertPos h docXML opts = Inr bodyEnd \<and>
       insertTOCAtPosition h docXML tocXML opts =
         Inr (take bodyEnd docXML @ tocXML @ drop bodyEnd docXML)) \<and>
    (strContains (take bodyEnd docXML) ''<w:sectPr'' \<longrightarrow>
       (\<exists>p. tocInsertPos h docXML opts = Inr p \<and>
            insertTOCAtPosition h docXML tocXML opts =
              Inr (take p docXML @ tocXML @ drop p docXML) \<and>
            p + length ''<w:sectPr'' \<le> bodyEnd \<and> p < bodyEnd \<and>
            prefix ''<w:sectPr'' (drop p docXML) \<and>
            (\<forall>j. p < j \<and> j + length ''<w:sectPr'' \<le> bodyEnd \<longrightarrow>
                 \<not> prefix ''<w:sectPr'' (drop j docXML)) \<and>
            (\<forall>q. prefix ''<w:sectPr'' (drop q docXML) \<and> q + length ''<w:sectPr'' \<le> bodyEnd \<and>
                 (\<forall>j. q < j \<and> j + length ''<w:sectPr'' \<le> bodyEnd \<longrightarrow>
                      \<not> prefix ''<w:sectPr'' (drop j docXML)) \<longrightarrow> p = q)))"
proof (intro conjI impI)
  show "prefix ''</w:body>'' (drop bodyEnd docXML)"
    using assms(2) strIndex_Some_iff [of "''</w:body>''" docXML bodyEnd] by simp
next
  assume "\<not> strContains (take bodyEnd docXML) ''<w:sectPr''"
  then have n: "strLastIndex (take bodyEnd docXML) ''<w:sectPr'' = None"
    using strLastIndex_None_iff [of "''<w:sectPr''" "take bodyEnd docXML"]
      strContains_iff [of "''<w:sectPr''" "take bodyEnd docXML"] by simp
  show "tocInsertPos h docXML opts = Inr bodyEnd"
    using assms n by (simp add: tocInsertPos_def)
  then show "insertTOCAtPosition h docXML tocXML opts =
         Inr (take bodyEnd docXML @ tocXML @ drop bodyEnd docXML)"
    by (simp add: insertTOCAtPosition_def)
next
  let ?s = "''<w:sectPr''"
  assume "strContains (take bodyEnd docXML) ?s"
  then obtain p where p: "strLastIndex (take bodyEnd docXML) ?s = Some p"
    using strLastIndex_None_iff [of ?s "take bodyEnd docXML"]
      strContains_iff [of ?s "take bodyEnd docXML"] by fastforce
  then have pp: "prefix ?s (drop p (take bodyEnd docXML))"
    and last: "\<forall>j>p. \<not> prefix ?s (drop j (take bodyEnd docXML))"
    using strLastIndex_Some_iff [of ?s "take bodyEnd docXML" p] by simp_all
  have tp: "tocInsertPos h docXML opts = Inr p" using assms p by (simp add: tocInsertPos_def)
  have be: "bodyEnd \<le> length docXML" using assms(2) by (rule strIndex_le)
  have d: "drop j (take bodyEnd docXML) = take (bodyEnd - j) (drop j docXML)" for j
    by (simp add: drop_take)
  have len: "p + length ?s \<le> bodyEnd"
    using prefix_drop_length [OF pp] be by simp
  have pre: "prefix ?s (drop p docXML)" using pp unfolding d prefix_take_iff by simp
  have nolater: "\<not> prefix ?s (drop j docXML)" if "p < j" "j + length ?s \<le> bodyEnd" for j
  proof
    assume "prefix ?s (drop j docXML)"
    then have "prefix ?s (drop j (take bodyEnd docXML))"
      unfolding d prefix_take_iff using that(2) by simp
    then show False using last that(1) by blast
  qed
  show "\<exists>p. tocInsertPos h docXML opts = Inr p \<and>
            insertTOCAtPosition h docXML tocXML opts =
              Inr (take p docXML @ tocXML @ drop p docXML) \<and>
            p + length ''<w:sectPr'' \<le> bodyEnd \<and> p < bodyEnd \<and>
            prefix ''<w:sectPr'' (drop p docXML) \<and>
            (\<forall>j. p < j \<and> j + length ''<w:sectPr'' \<le> bodyEnd \<longrightarrow>
                 \<not> prefix ''<w:sectPr'' (drop j docXML)) \<and>
            (\<forall>q. prefix ''<w:sectPr'' (drop q docXML) \<and> q + length ''<w:sectPr'' \<le> bodyEnd \<and>
                 (\<forall>j. q < j \<and> j + length ''<w:sectPr'' \<le> bodyEnd \<longrightarrow>
                      \<not> prefix ''<w:sectPr'' (drop j docXML)) \<longrightarrow> p = q)"
  proof (intro exI [of _ p] conjI)
    show "insertTOCAtPosition h docXML tocXML opts = Inr (take p docXML @ tocXML @ drop p docXML)"
      using tp by (simp add: insertTOCAtPosition_def)
    show "p < bodyEnd" using len by simp
    show "\<forall>j. p < j \<and> j + length ''<w:sectPr'' \<le> bodyEnd \<longrightarrow>
                 \<not> prefix ''<w:sectPr'' (drop j docXML)"
      using nolater by blast
    show "\<forall>q. prefix ''<w:sectPr'' (drop q docXML) \<and> q + length ''<w:sectPr'' \<le> bodyEnd \<and>
                 (\<forall>j. q < j \<and> j + length ''<w:sectPr'' \<le> bodyEnd \<longrightarrow>
                      \<not> prefix ''<w:sectPr'' (drop j docXML)) \<longrightarrow> p = q"
    proof (intro allI impI)
      fix q
      assume q: "prefix ''<w:sectPr'' (drop q docXML) \<and> q + length ''<w:sectPr'' \<le> bodyEnd \<and>
                 (\<forall>j. q < j \<and> j + length ''<w:sectPr'' \<le> bodyEnd \<longrightarrow>
                      \<not> prefix ''<w:sectPr'' (drop j docXML))"
      have "\<not> p < q" using q nolater by blast
      moreover have "\<not> q < p" using q pre len by blast
      ultimately show "p = q" by simp
    qed
  qed (use tp len pre in auto)
qed

theorem toc_end_offset_witness:
  "tocInsertPos exampleHelpers ''<w:body><w:p/><w:sectPr><w:pgSz/></w:sectPr></w:body>''
     \<lparr>Title = [], OutlineLevels = [], Position = PositionEnd, Anchor = []\<rparr> = Inr 14 \<and>
   insertTOCAtPosition exampleHelpers ''<w:body><w:p/><w:sectPr><w:pgSz/></w:sectPr></w:body>'' ''<w:p>T</w:p>''
     \<lparr>Title = [], OutlineLevels = [], Position = PositionEnd, Anchor = []\<rparr> =
     Inr ''<w:body><w:p/><w:p>T</w:p><w:sectPr><w:pgSz/></w:sectPr></w:body>'' \<and>
   tocInsertPos exampleHelpers ''<w:body><w:p/></w:body>''
     \<lparr>Title = [], OutlineLevels = [], Position = PositionEnd, Anchor = []\<rparr> = Inr 14"
proof -
  let ?o = "\<lparr>Title = [], OutlineLevels = [], Position = PositionEnd, Anchor = []\<rparr>"
  let ?d = "''<w:body><w:p/><w:sectPr><w:pgSz/></w:sectPr></w:body>''"
  let ?e = "''<w:body><w:p/></w:body>''"
  let ?h = exampleHelpers
  have p: "Position ?o = PositionEnd" by simp
  have b1: "strIndex ?d ''</w:body>'' = Some 44" by code_simp
  have b2: "strIndex ?e ''</w:body>'' = Some 14" by code_simp
  have c1: "strContains (take 44 ?d) ''<w:sectPr''" by code_simp
  have c2: "\<not> strContains (take 14 ?e) ''<w:sectPr''" by code_simp
  have l: "strLastIndex (take 44 ?d) ''<w:sectPr'' = Some 14" by code_simp
  from toc_end_offset [OF p b1, of ?h "''<w:p>T</w:p>''"] c1
  obtain q where q: "tocInsertPos ?h ?d ?o = Inr q"
    "insertTOCAtPosition ?h ?d ''<w:p>T</w:p>'' ?o = Inr (take q ?d @ ''<w:p>T</w:p>'' @ drop q ?d)"
    by blast
  have "q = 14" using q(1) b1 l by (simp add: tocInsertPos_def)
  then show ?thesis
    using q toc_end_offset [OF p b2, of ?h "''<w:p>T</w:p>''"] c2 by simp
qed

text \<open>
  The final section-properties block of this body records a change of the section
  properties: it opens at offset 14, closes at offset 88 in front of the closing tag of the
  body, and holds the former properties in a \<open>w:sectPrChange\<close> element with a \<open>w:sectPr\<close>
  of its own. The last occurrence of \<open><w:sectPr\<close> is that inner element at offset 49: the
  offset planned for the End position lies inside the final block, not before it, and the
  fragment is inserted there.
\<close>

theorem toc_end_counterexample:
  \<open>strIndex sectPrChangeBody ''<w:sectPr>'' = Some 14 \<and>
   strIndex sectPrChangeBody ''</w:body>'' = Some 88 \<and>
   slice sectPrChangeBody 14 88 =
     ''<w:sectPr><w:sectPrChange w:id="1"><w:sectPr/></w:sectPrChange></w:sectPr>'' \<and>
   tocInsertPos exampleHelpers sectPrChangeBody
     \<lparr>Title = [], OutlineLevels = [], Position = PositionEnd, Anchor = []\<rparr> = Inr 49 \<and>
   insertTOCAtPosition exampleHelpers sectPrChangeBody ''<w:p>T</w:p>''
     \<lparr>Title = [], OutlineLevels = [], Position = PositionEnd, Anchor = []\<rparr> =
     Inr (''<w:body><w:p/><w:sectPr><w:sectPrChange w:id="1">'' @ ''<w:p>T</w:p>'' @
          ''<w:sectPr/></w:sectPrChange></w:sectPr></w:body>'')\<close>
  by code_simp







end
